theory Spec2Isabelle
  imports Complex_Main
begin

section \<open>Data model of the task coordinator\<close>

text \<open>
  The text of an error. Each constructor stands for one f-string of the source, with the
  interpolated values as its arguments:
  \<^item> \<open>WorkflowNotFound wid\<close>: "workflow does not exist: wid" (add_task_to_workflow,
    execute_workflow);
  \<^item> \<open>AgentNotFound aid\<close>: "agent does not exist: aid" (create_task);
  \<^item> \<open>ReceiverNotFound rid\<close>: "receiver agent does not exist: rid" (send_message);
  \<^item> \<open>TaskTimeoutText tid secs\<close>: "task timed out: tid (timeout: secs s)";
  \<^item> \<open>TaskFailedText tid m\<close>: "task execution failed: tid - m";
  \<^item> \<open>UnresolvedDepsText ps\<close>: "task dependencies cannot be resolved: ps", where each
    pair \<open>(t, d)\<close> of \<open>ps\<close> is the entry "t -> d";
  \<^item> \<open>KeyText k\<close>: the text of a KeyError on key \<open>k\<close>;
  \<^item> \<open>DivisionText\<close>: the text of a ZeroDivisionError;
  \<^item> \<open>WorkerText s\<close>: a text produced by a worker, opaque to the coordinator.
\<close>

datatype error_text =
    WorkflowNotFound string
  | AgentNotFound string
  | ReceiverNotFound string
  | TaskTimeoutText string int
  | TaskFailedText string error_text
  | UnresolvedDepsText "(string \<times> string) list"
  | KeyText string
  | DivisionText
  | WorkerText string

text \<open>The exceptions of the source, by class.\<close>

datatype exn =
    ValueError error_text
  | Exception error_text
  | KeyError string
  | ZeroDivisionError

fun str_exn :: "exn \<Rightarrow> error_text" where
  "str_exn (ValueError m) = m"
| "str_exn (Exception m) = m"
| "str_exn (KeyError k) = KeyText k"
| "str_exn ZeroDivisionError = DivisionText"

text \<open>Message and TaskResult of base_agent.py. Time stamps and execution times are left out.\<close>

record message =
  sender :: string
  receiver :: string
  content :: string
  message_type :: string
  metadata :: "(string \<times> string) list"

record task_result =
  tr_agent_id :: string
  tr_task_id :: string
  tr_status :: string
  tr_result :: "string option"
  tr_error_message :: "error_text option"

text \<open>WorkflowTask and Workflow of task_coordinator.py. The payload of a task is opaque.\<close>

record workflow_task =
  task_id :: string
  task_type :: string
  agent_id :: string
  data :: string
  dependencies :: "string list"
  priority :: int
  timeout :: int
  retry_count :: int
  max_retries :: int
  status :: string
  result :: "task_result option"

datatype workflow_status = IDLE | RUNNING | PAUSED | COMPLETED | FAILED | CANCELLED

text \<open>
  The progress of a workflow is a Python float; the model computes it with exact
  rationals.
\<close>

record workflow =
  workflow_id :: string
  name :: string
  description :: string
  tasks :: "workflow_task list"
  wf_status :: workflow_status
  progress :: rat
  error_message :: "error_text option"

text \<open>
  Of an agent the coordinator uses its identity, its inbox (message_history) and its
  execute_task method; the latter is an input of the model (see \<open>outcome\<close> below).
\<close>

record agent =
  a_agent_id :: string
  a_name :: string
  message_history :: "message list"

text \<open>
  The coordinator. \<open>invocations\<close> is not a field of the source: it records, in order, the
  task id of every call of agent.execute_task made by the coordinator.
\<close>

record coordinator =
  agents :: "string \<rightharpoonup> agent"
  workflows :: "string \<rightharpoonup> workflow"
  message_queue :: "message list"
  task_history :: "task_result list"
  max_concurrent_tasks :: int
  default_timeout :: int
  invocations :: "string list"

section \<open>Definition-time operations\<close>

text \<open>
  Every operation returns what the call returns or raises (\<open>Inl\<close> the exception) together
  with the coordinator after the call.
\<close>

definition new_task :: "string \<Rightarrow> string \<Rightarrow> string \<Rightarrow> string \<Rightarrow> string list \<Rightarrow> int \<Rightarrow> int
    \<Rightarrow> workflow_task" where
  "new_task tid ty aid d deps prio tmo =
     \<lparr>task_id = tid, task_type = ty, agent_id = aid, data = d, dependencies = deps,
      priority = prio, timeout = tmo, retry_count = 0, max_retries = 3,
      status = ''pending'', result = None\<rparr>"

text \<open>
  create_task: \<open>dependencies or []\<close> and \<open>timeout or self.default_timeout\<close>; a timeout of
  \<open>None\<close> or \<open>0\<close> is replaced by the default.
\<close>

definition create_task :: "coordinator \<Rightarrow> string \<Rightarrow> string \<Rightarrow> string \<Rightarrow> string
    \<Rightarrow> string list option \<Rightarrow> int \<Rightarrow> int option \<Rightarrow> (exn + workflow_task) \<times> coordinator" where
  "create_task c tid ty aid d deps prio tmo =
     (if agents c aid = None then (Inl (ValueError (AgentNotFound aid)), c)
      else (Inr (new_task tid ty aid d
                   (case deps of None \<Rightarrow> [] | Some ds \<Rightarrow> ds) prio
                   (case tmo of None \<Rightarrow> default_timeout c
                    | Some n \<Rightarrow> if n = 0 then default_timeout c else n)), c))"

definition add_task_to_workflow :: "coordinator \<Rightarrow> string \<Rightarrow> workflow_task
    \<Rightarrow> (exn + unit) \<times> coordinator" where
  "add_task_to_workflow c wid t =
     (case workflows c wid of
        None \<Rightarrow> (Inl (ValueError (WorkflowNotFound wid)), c)
      | Some w \<Rightarrow> (Inr (), c\<lparr>workflows := (workflows c)(wid \<mapsto> w\<lparr>tasks := tasks w @ [t]\<rparr>)\<rparr>))"

definition create_workflow :: "coordinator \<Rightarrow> string \<Rightarrow> string \<Rightarrow> string
    \<Rightarrow> workflow \<times> coordinator" where
  "create_workflow c wid nm descr =
     (let w = \<lparr>workflow_id = wid, name = nm, description = descr, tasks = [],
               wf_status = IDLE, progress = 0, error_message = None\<rparr>
      in (w, c\<lparr>workflows := (workflows c)(wid \<mapsto> w)\<rparr>))"

section \<open>Messaging\<close>

text \<open>BaseAgent.add_message appends to the agent's message_history.\<close>

definition add_message :: "agent \<Rightarrow> message \<Rightarrow> agent" where
  "add_message a m = a\<lparr>message_history := message_history a @ [m]\<rparr>"

definition send_message :: "coordinator \<Rightarrow> string \<Rightarrow> string \<Rightarrow> string \<Rightarrow> string
    \<Rightarrow> (string \<times> string) list option \<Rightarrow> (exn + unit) \<times> coordinator" where
  "send_message c sid rid txt ty md =
     (case agents c rid of
        None \<Rightarrow> (Inl (ValueError (ReceiverNotFound rid)), c)
      | Some a \<Rightarrow>
          (let m = \<lparr>sender = sid, receiver = rid, content = txt, message_type = ty,
                    metadata = (case md of None \<Rightarrow> [] | Some kvs \<Rightarrow> kvs)\<rparr>
           in (Inr (), c\<lparr>message_queue := message_queue c @ [m],
                         agents := (agents c)(rid \<mapsto> add_message a m)\<rparr>)))"

section \<open>Readiness\<close>

text \<open>
  running_tasks is a dict from task id to an asyncio task. An asyncio task is modelled
  by the position in workflow.tasks of the WorkflowTask its coroutine holds and, once the
  coroutine has finished, what it returned or raised. The dict is an association list in
  insertion order; completed_tasks, a Python set, is a list without repetition.
\<close>

type_synonym handle = "nat \<times> (exn + task_result) option"
type_synonym running = "(string \<times> handle) list"

definition in_dict :: "string \<Rightarrow> running \<Rightarrow> bool" where
  "in_dict k r = (k \<in> fst ` set r)"

text \<open>
  _get_ready_tasks. The returned list holds references to the task objects of the
  workflow: here, their positions in workflow.tasks. list.sort with reverse=True is a
  stable sort on the descending key.
\<close>

definition skipped :: "workflow_task \<Rightarrow> string list \<Rightarrow> running \<Rightarrow> bool" where
  "skipped t completed r =
     (task_id t \<in> set completed \<or> in_dict (task_id t) r \<or>
      status t \<in> set [''completed'', ''running''])"

definition dependencies_met :: "workflow_task \<Rightarrow> string list \<Rightarrow> bool" where
  "dependencies_met t completed = list_all (\<lambda>dep. dep \<in> set completed) (dependencies t)"

definition get_ready_tasks :: "workflow \<Rightarrow> string list \<Rightarrow> running \<Rightarrow> nat list" where
  "get_ready_tasks w completed r =
     sort_key (\<lambda>i. - priority (tasks w ! i))
       (filter (\<lambda>i. \<not> skipped (tasks w ! i) completed r \<and>
                     dependencies_met (tasks w ! i) completed)
          [0 ..< length (tasks w)])"

section \<open>Executing one task\<close>

text \<open>
  What \<open>await asyncio.wait_for(agent.execute_task(task_data), timeout=task.timeout)\<close>
  does is an input of the model: it returns a TaskResult, raises asyncio.TimeoutError, or
  raises another exception.
\<close>

datatype outcome = Returns task_result | TimesOut | Raises exn

text \<open>
  BaseAgent.execute_task wraps the abstract process_task: a result is passed on, an
  exception of process_task is caught and returned as a TaskResult with status "failed".
\<close>

definition execute_task :: "agent \<Rightarrow> string \<Rightarrow> exn + task_result \<Rightarrow> task_result" where
  "execute_task a tid processed =
     (case processed of
        Inr r \<Rightarrow> r
      | Inl e \<Rightarrow> \<lparr>tr_agent_id = a_agent_id a, tr_task_id = tid, tr_status = ''failed'',
                  tr_result = None, tr_error_message = Some (str_exn e)\<rparr>)"

definition failed_result :: "workflow_task \<Rightarrow> error_text \<Rightarrow> task_result" where
  "failed_result t error_msg =
     \<lparr>tr_agent_id = agent_id t, tr_task_id = task_id t, tr_status = ''failed'',
      tr_result = None, tr_error_message = Some error_msg\<rparr>"

text \<open>
  _execute_single_task. \<open>env tid k\<close> is the outcome of the \<open>k\<close>-th invocation of the worker
  for task \<open>tid\<close> within this coroutine. The function returns what the coroutine returns or
  raises, the task object and the coordinator after it. The lookup of the agent is outside
  the \<open>try\<close>: a missing agent is a KeyError that no handler sees.
\<close>

function execute_single_task :: "(string \<Rightarrow> nat \<Rightarrow> outcome) \<Rightarrow> nat \<Rightarrow> coordinator
    \<Rightarrow> workflow_task \<Rightarrow> (exn + task_result) \<times> workflow_task \<times> coordinator" where
  "execute_single_task env k c t =
     (case agents c (agent_id t) of
        None \<Rightarrow> (Inl (KeyError (agent_id t)), t, c)
      | Some a \<Rightarrow>
          (let c1 = c\<lparr>invocations := invocations c @ [task_id t]\<rparr> in
           case env (task_id t) k of
             Returns r \<Rightarrow>
               (Inr r, t\<lparr>result := Some r, status := ''completed''\<rparr>,
                c1\<lparr>task_history := task_history c1 @ [r]\<rparr>)
           | TimesOut \<Rightarrow>
               (let error_msg = TaskTimeoutText (task_id t) (timeout t);
                    t1 = t\<lparr>result := Some (failed_result t error_msg), status := ''failed''\<rparr>
                in if retry_count t1 < max_retries t1
                   then execute_single_task env (Suc k) c1
                          (t1\<lparr>retry_count := retry_count t1 + 1, status := ''pending''\<rparr>)
                   else (Inl (Exception error_msg), t1, c1))
           | Raises e \<Rightarrow>
               (let error_msg = TaskFailedText (task_id t) (str_exn e);
                    t1 = t\<lparr>result := Some (failed_result t error_msg), status := ''failed''\<rparr>
                in if retry_count t1 < max_retries t1
                   then execute_single_task env (Suc k) c1
                          (t1\<lparr>retry_count := retry_count t1 + 1, status := ''pending''\<rparr>)
                   else (Inl e, t1, c1))))"
  by pat_completeness auto
termination
  by (relation "measure (\<lambda>(env, k, c, t). nat (max_retries t - retry_count t))") auto

declare execute_single_task.simps [simp del]

section \<open>The scheduler\<close>

record sched_state =
  coord :: coordinator
  wf :: workflow
  completed_tasks :: "string list"
  running_tasks :: running
  waits :: nat

text \<open>
  \<open>waits\<close> is not a variable of the source: it counts the calls of asyncio.wait, so that
  the schedule, the second input of the model, can be asked at each of them which
  coroutines have finished in the meantime: \<open>sched n i\<close> tells whether the coroutine of the
  task at position \<open>i\<close> has finished when the \<open>n\<close>-th wait returns.
\<close>

text \<open>Dict assignment, dict deletion, set insertion, and the slice \<open>xs[:k]\<close> of Python.\<close>

definition dict_set :: "string \<Rightarrow> handle \<Rightarrow> running \<Rightarrow> running" where
  "dict_set k v r =
     (if in_dict k r then map (\<lambda>(k', v'). if k' = k then (k', v) else (k', v')) r
      else r @ [(k, v)])"

definition dict_del :: "string \<Rightarrow> running \<Rightarrow> running" where
  "dict_del k r = filter (\<lambda>(k', v'). k' \<noteq> k) r"

definition set_add :: "string \<Rightarrow> string list \<Rightarrow> string list" where
  "set_add x xs = (if x \<in> set xs then xs else xs @ [x])"

definition slice_to :: "int \<Rightarrow> 'a list \<Rightarrow> 'a list" where
  "slice_to k xs = (if 0 \<le> k then take (nat k) xs else take (length xs - nat (- k)) xs)"

text \<open>
  The body of \<open>for task in tasks_to_start\<close>: the task object is marked running and its
  coroutine is stored under its id. When two tasks started in the same iteration share an
  id, the second assignment replaces the asyncio task of the first. In Python the
  coroutine of the first still runs, but the scheduler never awaits it, and its id is a key
  of running_tasks or a member of completed_tasks from then on, so that neither the dict,
  the completed set, the ready list nor the progress depend on it. The model does not
  follow such a coroutine: the record of its task stays as it is here.
\<close>

definition start_task :: "sched_state \<Rightarrow> nat \<Rightarrow> sched_state" where
  "start_task s i =
     (let t = tasks (wf s) ! i
      in s\<lparr>wf := (wf s)\<lparr>tasks := (tasks (wf s))[i := t\<lparr>status := ''running''\<rparr>]\<rparr>,
            running_tasks := dict_set (task_id t) (i, None) (running_tasks s)\<rparr>)"

definition tasks_to_start :: "sched_state \<Rightarrow> nat list" where
  "tasks_to_start s =
     (let ready_tasks = get_ready_tasks (wf s) (completed_tasks s) (running_tasks s);
          available_slots = max_concurrent_tasks (coord s) - int (length (running_tasks s))
      in slice_to available_slots ready_tasks)"

definition dispatch :: "sched_state \<Rightarrow> sched_state" where
  "dispatch s = foldl start_task s (tasks_to_start s)"

text \<open>
  The coroutine of the task at position \<open>i\<close> runs to its end: the task object and the
  coordinator take its effects, and its asyncio task keeps what it returned or raised.
\<close>

definition finish :: "(string \<Rightarrow> nat \<Rightarrow> outcome) \<Rightarrow> sched_state \<Rightarrow> nat \<Rightarrow> sched_state" where
  "finish env s i =
     (case execute_single_task env 0 (coord s) (tasks (wf s) ! i) of
        (res, t', c') \<Rightarrow>
          s\<lparr>coord := c', wf := (wf s)\<lparr>tasks := (tasks (wf s))[i := t']\<rparr>,
            running_tasks :=
              map (\<lambda>(k, (j, d)). if j = i then (k, (j, Some res)) else (k, (j, d)))
                (running_tasks s)\<rparr>)"

text \<open>
  asyncio.wait with FIRST_COMPLETED returns once at least one of the awaited asyncio
  tasks is done. The coroutines that end during this wait are those the schedule names
  among the unfinished ones; when it names none and no awaited task is done yet, the
  first awaited one ends.
\<close>

definition ending :: "(nat \<Rightarrow> nat \<Rightarrow> bool) \<Rightarrow> sched_state \<Rightarrow> nat list" where
  "ending sched s =
     (let named = map (fst \<circ> snd)
                    (filter (\<lambda>(k, (i, d)). d = None \<and> sched (waits s) i) (running_tasks s))
      in if named = [] \<and> (\<forall>(k, (i, d)) \<in> set (running_tasks s). d = None)
         then map (fst \<circ> snd) (take 1 (running_tasks s))
         else named)"

text \<open>
  The body of \<open>for async_task in done\<close>: the id is looked up by the asyncio task; an id that
  is falsy (the empty string) is left in running_tasks. The division raises
  ZeroDivisionError on an empty task list.
\<close>

definition find_task_id :: "handle \<Rightarrow> running \<Rightarrow> string option" where
  "find_task_id h r = map_option fst (find (\<lambda>(tid, atask). atask = h) r)"

definition handle_done :: "sched_state \<Rightarrow> handle \<Rightarrow> exn option \<times> sched_state" where
  "handle_done s h =
     (case find_task_id h (running_tasks s) of
        None \<Rightarrow> (None, s)
      | Some tid \<Rightarrow>
          if tid = [] then (None, s)
          else (let s1 = s\<lparr>running_tasks := dict_del tid (running_tasks s),
                            completed_tasks := set_add tid (completed_tasks s)\<rparr>
                in if length (tasks (wf s1)) = 0 then (Some ZeroDivisionError, s1)
                   else (None, s1\<lparr>wf := (wf s1)\<lparr>progress :=
                           of_nat (length (completed_tasks s1)) / of_nat (length (tasks (wf s1)))
                             * 100\<rparr>\<rparr>)))"

fun handle_all :: "sched_state \<Rightarrow> handle list \<Rightarrow> exn option \<times> sched_state" where
  "handle_all s [] = (None, s)"
| "handle_all s (h # hs) =
     (case handle_done s h of
        (Some e, s') \<Rightarrow> (Some e, s')
      | (None, s') \<Rightarrow> handle_all s' hs)"

definition wait_first_completed :: "(string \<Rightarrow> nat \<Rightarrow> outcome) \<Rightarrow> (nat \<Rightarrow> nat \<Rightarrow> bool)
    \<Rightarrow> sched_state \<Rightarrow> exn option \<times> sched_state" where
  "wait_first_completed env sched s =
     (let s1 = foldl (finish env) s (ending sched s);
          done = filter (\<lambda>h. snd h \<noteq> None) (map snd (running_tasks s1))
      in handle_all (s1\<lparr>waits := Suc (waits s1)\<rparr>) done)"

text \<open>The unresolved edges listed by the error of the dead-end check.\<close>

definition unresolved_deps :: "sched_state \<Rightarrow> (string \<times> string) list" where
  "unresolved_deps s =
     concat (map (\<lambda>t. map (\<lambda>dep. (task_id t, dep))
                         (filter (\<lambda>dep. dep \<notin> set (completed_tasks s)) (dependencies t)))
               (filter (\<lambda>t. task_id t \<notin> set (completed_tasks s)) (tasks (wf s))))"

datatype control = Continue | Break | Raised exn

text \<open>One pass through the body of the \<open>while\<close> loop of _execute_workflow_tasks.\<close>

definition loop_body :: "(string \<Rightarrow> nat \<Rightarrow> outcome) \<Rightarrow> (nat \<Rightarrow> nat \<Rightarrow> bool) \<Rightarrow> sched_state
    \<Rightarrow> control \<times> sched_state" where
  "loop_body env sched s =
     (let ready_tasks = get_ready_tasks (wf s) (completed_tasks s) (running_tasks s);
          s1 = dispatch s
      in case (if running_tasks s1 \<noteq> [] then wait_first_completed env sched s1
               else (None, s1)) of
           (Some e, s2) \<Rightarrow> (Raised e, s2)
         | (None, s2) \<Rightarrow>
             if ready_tasks = [] \<and> running_tasks s2 = [] then
               (if filter (\<lambda>t. task_id t \<notin> set (completed_tasks s2)) (tasks (wf s2)) \<noteq> []
                then (Raised (Exception (UnresolvedDepsText (unresolved_deps s2))), s2)
                else (Break, s2))
             else (Continue, s2))"

text \<open>
  _execute_workflow_tasks. The loop need not end (a task with the empty id is never
  moved to completed_tasks; with no slot available nothing is ever started), so it runs on
  fuel: \<open>None\<close> is a run that has not ended within \<open>fuel\<close> tests of the loop condition.
\<close>

fun execute_workflow_tasks :: "nat \<Rightarrow> (string \<Rightarrow> nat \<Rightarrow> outcome) \<Rightarrow> (nat \<Rightarrow> nat \<Rightarrow> bool)
    \<Rightarrow> sched_state \<Rightarrow> (exn option \<times> sched_state) option" where
  "execute_workflow_tasks 0 env sched s = None"
| "execute_workflow_tasks (Suc fuel) env sched s =
     (if length (completed_tasks s) < length (tasks (wf s)) then
        (case loop_body env sched s of
           (Continue, s') \<Rightarrow> execute_workflow_tasks fuel env sched s'
         | (Break, s') \<Rightarrow> Some (None, s')
         | (Raised e, s') \<Rightarrow> Some (Some e, s'))
      else Some (None, s))"

text \<open>
  execute_workflow. The workflow object is held in the scheduler state during the run
  and stored back under its id when the run ends.
\<close>

definition init_state :: "coordinator \<Rightarrow> workflow \<Rightarrow> sched_state" where
  "init_state c w =
     \<lparr>coord = c, wf = w\<lparr>wf_status := RUNNING\<rparr>, completed_tasks = [], running_tasks = [],
      waits = 0\<rparr>"

definition store :: "sched_state \<Rightarrow> string \<Rightarrow> workflow \<Rightarrow> coordinator" where
  "store s wid w = (coord s)\<lparr>workflows := (workflows (coord s))(wid \<mapsto> w)\<rparr>"

definition execute_workflow :: "nat \<Rightarrow> (string \<Rightarrow> nat \<Rightarrow> outcome) \<Rightarrow> (nat \<Rightarrow> nat \<Rightarrow> bool)
    \<Rightarrow> coordinator \<Rightarrow> string \<Rightarrow> ((exn + workflow) \<times> coordinator) option" where
  "execute_workflow fuel env sched c wid =
     (case workflows c wid of
        None \<Rightarrow> Some (Inl (ValueError (WorkflowNotFound wid)), c)
      | Some w \<Rightarrow>
          (case execute_workflow_tasks fuel env sched (init_state c w) of
             None \<Rightarrow> None
           | Some (None, s) \<Rightarrow>
               (let w' = (wf s)\<lparr>wf_status := COMPLETED, progress := 100\<rparr>
                in Some (Inr w', store s wid w'))
           | Some (Some e, s) \<Rightarrow>
               (let w' = (wf s)\<lparr>wf_status := FAILED, error_message := Some (str_exn e)\<rparr>
                in Some (Inl e, store s wid w'))))"

section \<open>States of a run\<close>

text \<open>
  The state in which the loop condition of _execute_workflow_tasks is tested for the
  \<open>k\<close>-th time after the state \<open>s\<close>, when the run gets that far.
\<close>

fun state_at :: "nat \<Rightarrow> (string \<Rightarrow> nat \<Rightarrow> outcome) \<Rightarrow> (nat \<Rightarrow> nat \<Rightarrow> bool) \<Rightarrow> sched_state
    \<Rightarrow> sched_state option" where
  "state_at 0 env sched s = Some s"
| "state_at (Suc k) env sched s =
     (if length (completed_tasks s) < length (tasks (wf s)) then
        (case loop_body env sched s of
           (Continue, s') \<Rightarrow> state_at k env sched s'
         | (Break, s') \<Rightarrow> None
         | (Raised e, s') \<Rightarrow> None)
      else None)"

text \<open>
  What holds of the scheduler's variables throughout a run: completed_tasks has no
  repetition, and it and the keys of running_tasks are ids of tasks of the workflow.
\<close>

definition sched_inv :: "sched_state \<Rightarrow> bool" where
  "sched_inv s =
     (distinct (completed_tasks s) \<and>
      set (completed_tasks s) \<subseteq> set (map task_id (tasks (wf s))) \<and>
      set (map fst (running_tasks s)) \<subseteq> set (map task_id (tasks (wf s))))"

text \<open>The progress is at most the completed share of the tasks.\<close>

definition progress_bounded :: "sched_state \<Rightarrow> bool" where
  "progress_bounded s =
     (progress (wf s)
        \<le> of_nat (length (completed_tasks s)) / of_nat (length (tasks (wf s))) * 100)"

section \<open>Example inputs\<close>

definition example_agent :: agent where
  "example_agent =
     \<lparr>a_agent_id = ''researcher_001'', a_name = ''researcher'', message_history = []\<rparr>"

definition example_coordinator :: coordinator where
  "example_coordinator =
     \<lparr>agents = [''researcher_001'' \<mapsto> example_agent],
      workflows = Map.empty, message_queue = [], task_history = [],
      max_concurrent_tasks = 5, default_timeout = 300, invocations = []\<rparr>"

definition example_task :: "string \<Rightarrow> string list \<Rightarrow> int \<Rightarrow> workflow_task" where
  "example_task tid deps prio =
     new_task tid ''research_topic'' ''researcher_001'' ''topic'' deps prio 300"

definition example_workflow :: "workflow_task list \<Rightarrow> workflow" where
  "example_workflow ts =
     \<lparr>workflow_id = ''wf'', name = ''demo'', description = [], tasks = ts,
      wf_status = IDLE, progress = 0, error_message = None\<rparr>"

definition with_workflow :: "workflow_task list \<Rightarrow> coordinator" where
  "with_workflow ts = example_coordinator\<lparr>workflows := [''wf'' \<mapsto> example_workflow ts]\<rparr>"

definition success_result :: "string \<Rightarrow> task_result" where
  "success_result tid =
     \<lparr>tr_agent_id = ''researcher_001'', tr_task_id = tid, tr_status = ''success'',
      tr_result = Some ''report'', tr_error_message = None\<rparr>"

section \<open>Readiness: the ready list\<close>

lemma insort_key_index_order:
  fixes f :: "nat \<Rightarrow> int"
  assumes "sorted_wrt (\<lambda>i j. f i < f j \<or> (f i = f j \<and> i < j)) ys"
    and "\<forall>y \<in> set ys. x < y"
  shows "sorted_wrt (\<lambda>i j. f i < f j \<or> (f i = f j \<and> i < j)) (insort_key f x ys)"
  using assms
proof (induction ys)
  case Nil
  then show ?case by simp
next
  case (Cons y ys)
  show ?case
  proof (cases "f x \<le> f y")
    case True
    have "\<forall>z \<in> set ys. f y \<le> f z" using Cons.prems(1) by auto
    with True Cons.prems show ?thesis by (auto simp: less_le)
  next
    case False
    with Cons show ?thesis by (auto simp: set_insort_key)
  qed
qed

lemma sort_key_index_order:
  fixes f :: "nat \<Rightarrow> int"
  assumes "sorted_wrt (<) xs"
  shows "sorted_wrt (\<lambda>i j. f i < f j \<or> (f i = f j \<and> i < j)) (sort_key f xs)"
  using assms
proof (induction xs)
  case Nil
  then show ?case by simp
next
  case (Cons x xs)
  then show ?case by (simp add: insort_key_index_order)
qed

text \<open>
  C3, as the spec states it, fails: a task whose status is "failed" (any status other
  than "completed" and "running") is ready when its id is neither completed nor
  dispatched and its dependencies are completed. Here the only task of the workflow has
  status "failed" and is in the ready list.
\<close>

theorem ready_not_pending_counterexample:
  "get_ready_tasks (example_workflow [(example_task ''a'' [] 1)\<lparr>status := ''failed''\<rparr>]) [] []
     = [0] \<and>
   status (tasks (example_workflow [(example_task ''a'' [] 1)\<lparr>status := ''failed''\<rparr>]) ! 0)
     \<noteq> ''pending''"
  by (simp add: get_ready_tasks_def skipped_def dependencies_met_def in_dict_def
      example_workflow_def example_task_def new_task_def)

text \<open>
  C3, amended: the ready list holds exactly the tasks (by position in workflow.tasks)
  whose status is neither "completed" nor "running", whose id is neither in the completed
  set nor a key of the dispatched dict, and all of whose dependency ids are in the
  completed set; each such task once; in descending priority, tasks of equal priority in
  their order of insertion in the workflow.
\<close>

theorem get_ready_tasks_spec:
  "set (get_ready_tasks w completed r) =
     {i. i < length (tasks w) \<and>
         status (tasks w ! i) \<noteq> ''completed'' \<and> status (tasks w ! i) \<noteq> ''running'' \<and>
         task_id (tasks w ! i) \<notin> set completed \<and>
         task_id (tasks w ! i) \<notin> fst ` set r \<and>
         set (dependencies (tasks w ! i)) \<subseteq> set completed} \<and>
   distinct (get_ready_tasks w completed r) \<and>
   sorted_wrt (\<lambda>i j. priority (tasks w ! j) < priority (tasks w ! i) \<or>
                      (priority (tasks w ! i) = priority (tasks w ! j) \<and> i < j))
     (get_ready_tasks w completed r)"
proof -
  let ?P = "\<lambda>i. \<not> skipped (tasks w ! i) completed r \<and> dependencies_met (tasks w ! i) completed"
  let ?xs = "filter ?P [0 ..< length (tasks w)]"
  have 1: "sorted_wrt (<) ?xs" by (simp add: sorted_wrt_filter)
  have "sorted_wrt (\<lambda>i j. - priority (tasks w ! i) < - priority (tasks w ! j) \<or>
            (- priority (tasks w ! i) = - priority (tasks w ! j) \<and> i < j))
          (sort_key (\<lambda>i. - priority (tasks w ! i)) ?xs)"
    using 1 by (rule sort_key_index_order)
  then have 2: "sorted_wrt (\<lambda>i j. priority (tasks w ! j) < priority (tasks w ! i) \<or>
                      (priority (tasks w ! i) = priority (tasks w ! j) \<and> i < j))
     (get_ready_tasks w completed r)"
    by (simp add: get_ready_tasks_def)
  have 3: "distinct (get_ready_tasks w completed r)"
    by (simp add: get_ready_tasks_def)
  have 4: "set (get_ready_tasks w completed r) =
     {i. i < length (tasks w) \<and>
         status (tasks w ! i) \<noteq> ''completed'' \<and> status (tasks w ! i) \<noteq> ''running'' \<and>
         task_id (tasks w ! i) \<notin> set completed \<and>
         task_id (tasks w ! i) \<notin> fst ` set r \<and>
         set (dependencies (tasks w ! i)) \<subseteq> set completed}"
    by (auto simp: get_ready_tasks_def skipped_def dependencies_met_def in_dict_def
        list_all_iff)
  from 2 3 4 show ?thesis by blast
qed

theorem get_ready_tasks_spec_witness:
  "get_ready_tasks
     (example_workflow [example_task ''a'' [] 3, example_task ''b'' [] 9,
                        example_task ''c'' [''a''] 5, example_task ''d'' [] 3]) [] []
     = [1, 0, 3] \<and>
   sorted_wrt
     (\<lambda>i j. priority (tasks (example_workflow [example_task ''a'' [] 3, example_task ''b'' [] 9,
                        example_task ''c'' [''a''] 5, example_task ''d'' [] 3]) ! j)
             < priority (tasks (example_workflow [example_task ''a'' [] 3,
                        example_task ''b'' [] 9, example_task ''c'' [''a''] 5,
                        example_task ''d'' [] 3]) ! i) \<or>
            (priority (tasks (example_workflow [example_task ''a'' [] 3, example_task ''b'' [] 9,
                        example_task ''c'' [''a''] 5, example_task ''d'' [] 3]) ! i)
             = priority (tasks (example_workflow [example_task ''a'' [] 3,
                        example_task ''b'' [] 9, example_task ''c'' [''a''] 5,
                        example_task ''d'' [] 3]) ! j) \<and> i < j))
     (get_ready_tasks
        (example_workflow [example_task ''a'' [] 3, example_task ''b'' [] 9,
                           example_task ''c'' [''a''] 5, example_task ''d'' [] 3]) [] [])"
proof -
  have "get_ready_tasks
     (example_workflow [example_task ''a'' [] 3, example_task ''b'' [] 9,
                        example_task ''c'' [''a''] 5, example_task ''d'' [] 3]) [] []
     = [1, 0, 3]"
    by (simp add: get_ready_tasks_def skipped_def dependencies_met_def in_dict_def
        example_workflow_def example_task_def new_task_def upt_rec)
  then show ?thesis
    using get_ready_tasks_spec
      [of "example_workflow [example_task ''a'' [] 3, example_task ''b'' [] 9,
                             example_task ''c'' [''a''] 5, example_task ''d'' [] 3]" "[]" "[]"]
    by blast
qed

section \<open>Definition errors and messaging\<close>

text \<open>
  C9: create_task raises ValueError when the agent id is not registered;
  add_task_to_workflow and execute_workflow raise ValueError when the workflow id is
  absent; in each case the coordinator is the one before the call: nothing has been
  mutated, no worker has been invoked, and the call has ended at once (whatever the fuel,
  the workers and the schedule).
\<close>

theorem definition_errors_raised_first:
  "(agents c aid = None \<longrightarrow>
      create_task c tid ty aid d deps prio tmo = (Inl (ValueError (AgentNotFound aid)), c)) \<and>
   (workflows c wid = None \<longrightarrow>
      add_task_to_workflow c wid t = (Inl (ValueError (WorkflowNotFound wid)), c)) \<and>
   (workflows c wid = None \<longrightarrow>
      execute_workflow fuel env sched c wid
        = Some (Inl (ValueError (WorkflowNotFound wid)), c))"
  by (simp add: create_task_def add_task_to_workflow_def execute_workflow_def)

theorem definition_errors_raised_first_witness:
  "agents example_coordinator ''nobody'' = None \<and>
   workflows example_coordinator ''missing'' = None \<and>
   create_task example_coordinator ''t'' ''ty'' ''nobody'' ''d'' None 1 None
     = (Inl (ValueError (AgentNotFound ''nobody'')), example_coordinator) \<and>
   add_task_to_workflow example_coordinator ''missing'' (example_task ''t'' [] 1)
     = (Inl (ValueError (WorkflowNotFound ''missing'')), example_coordinator) \<and>
   execute_workflow 0 (\<lambda>tid k. TimesOut) (\<lambda>n i. True) example_coordinator ''missing''
     = Some (Inl (ValueError (WorkflowNotFound ''missing'')), example_coordinator)"
proof -
  have a: "agents example_coordinator ''nobody'' = None"
    by (simp add: example_coordinator_def)
  have w: "workflows example_coordinator ''missing'' = None"
    by (simp add: example_coordinator_def)
  show ?thesis
    using a w
      definition_errors_raised_first
        [of example_coordinator "''nobody''" "''t''" "''ty''" "''d''" None 1 None
            "''missing''" "example_task ''t'' [] 1" 0 "\<lambda>tid k. TimesOut" "\<lambda>n i. True"]
    by simp
qed

text \<open>
  C10: send_message to a receiver that is not registered raises ValueError and leaves the
  coordinator as it was (no message in the queue or in any inbox); to a registered
  receiver, the message is appended to the message queue and to the inbox of that
  receiver, and the entry of every other agent is unchanged.
\<close>

theorem send_message_delivery:
  "(agents c rid = None \<longrightarrow>
      send_message c sid rid txt ty md = (Inl (ValueError (ReceiverNotFound rid)), c)) \<and>
   (\<forall>a. agents c rid = Some a \<longrightarrow>
      (\<exists>m c'. send_message c sid rid txt ty md = (Inr (), c') \<and>
         sender m = sid \<and> receiver m = rid \<and> content m = txt \<and> message_type m = ty \<and>
         message_queue c' = message_queue c @ [m] \<and>
         agents c' rid = Some (a\<lparr>message_history := message_history a @ [m]\<rparr>) \<and>
         (\<forall>other. other \<noteq> rid \<longrightarrow> agents c' other = agents c other) \<and>
         workflows c' = workflows c \<and> task_history c' = task_history c))"
  by (simp add: send_message_def add_message_def Let_def)

theorem send_message_delivery_witness:
  "agents example_coordinator ''nobody'' = None \<and>
   send_message example_coordinator ''planner_001'' ''nobody'' ''hello'' ''text'' None
     = (Inl (ValueError (ReceiverNotFound ''nobody'')), example_coordinator) \<and>
   agents example_coordinator ''researcher_001'' = Some example_agent \<and>
   (\<exists>m c'. send_message example_coordinator ''planner_001'' ''researcher_001'' ''hello''
              ''text'' None = (Inr (), c') \<and>
      content m = ''hello'' \<and>
      message_queue c' = [m] \<and>
      map_option message_history (agents c' ''researcher_001'') = Some [m])"
proof -
  have n: "agents example_coordinator ''nobody'' = None"
    by (simp add: example_coordinator_def)
  have r: "agents example_coordinator ''researcher_001'' = Some example_agent"
    by (simp add: example_coordinator_def)
  have q: "message_queue example_coordinator = [] \<and> message_history example_agent = []"
    by (simp add: example_coordinator_def example_agent_def)
  have 1: "send_message example_coordinator ''planner_001'' ''nobody'' ''hello'' ''text'' None
     = (Inl (ValueError (ReceiverNotFound ''nobody'')), example_coordinator)"
    using n send_message_delivery
      [of example_coordinator "''nobody''" "''planner_001''" "''hello''" "''text''" None]
    by blast
  have 2: "\<exists>m c'. send_message example_coordinator ''planner_001'' ''researcher_001''
              ''hello'' ''text'' None = (Inr (), c') \<and>
      content m = ''hello'' \<and>
      message_queue c' = [m] \<and>
      map_option message_history (agents c' ''researcher_001'') = Some [m]"
    using r q send_message_delivery
      [of example_coordinator "''researcher_001''" "''planner_001''" "''hello''" "''text''" None]
    by fastforce
  from n r 1 2 show ?thesis by blast
qed

section \<open>One task: timeout, worker failure, retry\<close>

lemma timeout_step:
  assumes "agents c (agent_id t) = Some a" and "env (task_id t) k = TimesOut"
  shows "execute_single_task env k c t =
     (if retry_count t < max_retries t
      then execute_single_task env (Suc k) (c\<lparr>invocations := invocations c @ [task_id t]\<rparr>)
             (t\<lparr>result := Some (failed_result t (TaskTimeoutText (task_id t) (timeout t))),
                retry_count := retry_count t + 1, status := ''pending''\<rparr>)
      else (Inl (Exception (TaskTimeoutText (task_id t) (timeout t))),
            t\<lparr>result := Some (failed_result t (TaskTimeoutText (task_id t) (timeout t))),
               status := ''failed''\<rparr>,
            c\<lparr>invocations := invocations c @ [task_id t]\<rparr>))"
  using assms by (subst execute_single_task.simps) (simp add: Let_def)

lemma all_timeouts:
  assumes "agents c (agent_id t) = Some a"
    and "\<forall>j\<ge>k. env (task_id t) j = TimesOut"
    and "n = nat (max_retries t - retry_count t)"
  shows "execute_single_task env k c t =
     (Inl (Exception (TaskTimeoutText (task_id t) (timeout t))),
      t\<lparr>result := Some (failed_result t (TaskTimeoutText (task_id t) (timeout t))),
         status := ''failed'', retry_count := max (retry_count t) (max_retries t)\<rparr>,
      c\<lparr>invocations := invocations c @ replicate (Suc n) (task_id t)\<rparr>)"
  using assms
proof (induction n arbitrary: t k c)
  case 0
  then show ?case by (simp add: timeout_step max_def)
next
  case (Suc n)
  let ?t = "t\<lparr>result := Some (failed_result t (TaskTimeoutText (task_id t) (timeout t))),
                retry_count := retry_count t + 1, status := ''pending''\<rparr>"
  let ?c = "c\<lparr>invocations := invocations c @ [task_id t]\<rparr>"
  from Suc.prems have lt: "retry_count t < max_retries t" by simp
  have step: "execute_single_task env k c t = execute_single_task env (Suc k) ?c ?t"
    using Suc.prems lt by (simp add: timeout_step)
  have "execute_single_task env (Suc k) ?c ?t =
     (Inl (Exception (TaskTimeoutText (task_id ?t) (timeout ?t))),
      ?t\<lparr>result := Some (failed_result ?t (TaskTimeoutText (task_id ?t) (timeout ?t))),
         status := ''failed'', retry_count := max (retry_count ?t) (max_retries ?t)\<rparr>,
      ?c\<lparr>invocations := invocations ?c @ replicate (Suc n) (task_id ?t)\<rparr>)"
    using Suc.prems by (intro Suc.IH) auto
  with step lt show ?case
    by (simp add: failed_result_def max_def replicate_app_Cons_same)
qed

text \<open>
  C8: when the invocation of the worker times out, the attempt is recorded on the task as
  a TaskResult with status "failed", no payload, and the error message "task timed out"
  that carries the id of the task and its timeout; with retry budget left
  (retry_count < max_retries) the retry count is incremented, the status is reset to
  "pending" and the same task is executed again at once, else the task stays "failed" and
  an exception with that same message is raised. When every invocation times out, the
  worker is invoked once plus once for each retry left, the task ends "failed" with that
  recorded result, and the exception with the timeout message is raised.
\<close>

theorem timeout_failure_retried:
  assumes "agents c (agent_id t) = Some a" and "env (task_id t) k = TimesOut"
  shows "execute_single_task env k c t =
     (if retry_count t < max_retries t
      then execute_single_task env (Suc k) (c\<lparr>invocations := invocations c @ [task_id t]\<rparr>)
             (t\<lparr>result := Some \<lparr>tr_agent_id = agent_id t, tr_task_id = task_id t,
                                 tr_status = ''failed'', tr_result = None,
                                 tr_error_message =
                                   Some (TaskTimeoutText (task_id t) (timeout t))\<rparr>,
                retry_count := retry_count t + 1, status := ''pending''\<rparr>)
      else (Inl (Exception (TaskTimeoutText (task_id t) (timeout t))),
            t\<lparr>result := Some \<lparr>tr_agent_id = agent_id t, tr_task_id = task_id t,
                                tr_status = ''failed'', tr_result = None,
                                tr_error_message =
                                  Some (TaskTimeoutText (task_id t) (timeout t))\<rparr>,
               status := ''failed''\<rparr>,
            c\<lparr>invocations := invocations c @ [task_id t]\<rparr>)) \<and>
    ((\<forall>j\<ge>k. env (task_id t) j = TimesOut) \<longrightarrow>
       execute_single_task env k c t =
         (Inl (Exception (TaskTimeoutText (task_id t) (timeout t))),
          t\<lparr>result := Some \<lparr>tr_agent_id = agent_id t, tr_task_id = task_id t,
                              tr_status = ''failed'', tr_result = None,
                              tr_error_message =
                                Some (TaskTimeoutText (task_id t) (timeout t))\<rparr>,
             status := ''failed'', retry_count := max (retry_count t) (max_retries t)\<rparr>,
          c\<lparr>invocations := invocations c @
                replicate (Suc (nat (max_retries t - retry_count t))) (task_id t)\<rparr>))"
  using assms timeout_step [of c t a env k] all_timeouts [of c t a k env]
  unfolding failed_result_def by blast

theorem timeout_failure_retried_witness:
  "agents example_coordinator (agent_id (example_task ''a'' [] 1)) = Some example_agent \<and>
   (\<lambda>tid j. TimesOut) (task_id (example_task ''a'' [] 1)) 0 = TimesOut \<and>
   execute_single_task (\<lambda>tid j. TimesOut) 0 example_coordinator (example_task ''a'' [] 1) =
     (Inl (Exception (TaskTimeoutText ''a'' 300)),
      (example_task ''a'' [] 1)
        \<lparr>result := Some \<lparr>tr_agent_id = ''researcher_001'', tr_task_id = ''a'',
                            tr_status = ''failed'', tr_result = None,
                            tr_error_message = Some (TaskTimeoutText ''a'' 300)\<rparr>,
         status := ''failed'', retry_count := 3\<rparr>,
      example_coordinator\<lparr>invocations := [''a'', ''a'', ''a'', ''a'']\<rparr>)"
proof -
  have a: "agents example_coordinator (agent_id (example_task ''a'' [] 1)) = Some example_agent"
    by (simp add: example_coordinator_def example_task_def new_task_def)
  have e: "(\<lambda>tid j. TimesOut) (task_id (example_task ''a'' [] 1)) (0::nat) = TimesOut"
    by simp
  have f: "task_id (example_task ''a'' [] 1) = ''a'' \<and> timeout (example_task ''a'' [] 1) = 300 \<and>
      agent_id (example_task ''a'' [] 1) = ''researcher_001'' \<and>
      max_retries (example_task ''a'' [] 1) = 3 \<and> retry_count (example_task ''a'' [] 1) = 0 \<and>
      invocations example_coordinator = []"
    by (simp add: example_coordinator_def example_task_def new_task_def)
  have r: "replicate (Suc (nat 3)) ''a'' = [''a'', ''a'', ''a'', ''a'']"
    by (simp add: numeral_3_eq_3)
  have "execute_single_task (\<lambda>tid j. TimesOut) 0 example_coordinator (example_task ''a'' [] 1) =
     (Inl (Exception (TaskTimeoutText (task_id (example_task ''a'' [] 1))
                        (timeout (example_task ''a'' [] 1)))),
      (example_task ''a'' [] 1)
        \<lparr>result := Some \<lparr>tr_agent_id = agent_id (example_task ''a'' [] 1),
             tr_task_id = task_id (example_task ''a'' [] 1),
             tr_status = ''failed'', tr_result = None,
             tr_error_message = Some (TaskTimeoutText (task_id (example_task ''a'' [] 1))
                (timeout (example_task ''a'' [] 1)))\<rparr>,
         status := ''failed'',
         retry_count := max (retry_count (example_task ''a'' [] 1))
                            (max_retries (example_task ''a'' [] 1))\<rparr>,
      example_coordinator\<lparr>invocations := invocations example_coordinator @
         replicate (Suc (nat (max_retries (example_task ''a'' [] 1)
                              - retry_count (example_task ''a'' [] 1))))
           (task_id (example_task ''a'' [] 1))\<rparr>)"
    using timeout_failure_retried [OF a e] by blast
  then have "execute_single_task (\<lambda>tid j. TimesOut) 0 example_coordinator
               (example_task ''a'' [] 1) =
     (Inl (Exception (TaskTimeoutText ''a'' 300)),
      (example_task ''a'' [] 1)
        \<lparr>result := Some \<lparr>tr_agent_id = ''researcher_001'', tr_task_id = ''a'',
                            tr_status = ''failed'', tr_result = None,
                            tr_error_message = Some (TaskTimeoutText ''a'' 300)\<rparr>,
         status := ''failed'', retry_count := 3\<rparr>,
      example_coordinator\<lparr>invocations := [''a'', ''a'', ''a'', ''a'']\<rparr>)"
    using f r by simp
  with a e show ?thesis by blast
qed

lemma raise_step:
  assumes "agents c (agent_id t) = Some a" and "env (task_id t) k = Raises e"
  shows "execute_single_task env k c t =
     (if retry_count t < max_retries t
      then execute_single_task env (Suc k) (c\<lparr>invocations := invocations c @ [task_id t]\<rparr>)
             (t\<lparr>result := Some (failed_result t (TaskFailedText (task_id t) (str_exn e))),
                retry_count := retry_count t + 1, status := ''pending''\<rparr>)
      else (Inl e,
            t\<lparr>result := Some (failed_result t (TaskFailedText (task_id t) (str_exn e))),
               status := ''failed''\<rparr>,
            c\<lparr>invocations := invocations c @ [task_id t]\<rparr>))"
  using assms by (subst execute_single_task.simps) (simp add: Let_def)

lemma return_step:
  assumes "agents c (agent_id t) = Some a" and "env (task_id t) k = Returns r"
  shows "execute_single_task env k c t =
     (Inr r, t\<lparr>result := Some r, status := ''completed''\<rparr>,
      c\<lparr>invocations := invocations c @ [task_id t],
        task_history := task_history c @ [r]\<rparr>)"
  using assms by (subst execute_single_task.simps) (simp add: Let_def)

text \<open>
  C2 at a failing input. The worker is a BaseAgent whose process_task raises "boom":
  BaseAgent.execute_task returns a TaskResult with status "failed" and that message. The
  task has retry_count 0 and max_retries 3. _execute_single_task takes the returned
  result as a success: the task is marked "completed", the worker has been invoked once,
  the retry count is still 0.
\<close>

theorem returned_failure_marked_completed:
  "(case execute_single_task
           (\<lambda>tid k. Returns (execute_task example_agent tid
                                (Inl (Exception (WorkerText ''boom'')))))
           0 example_coordinator (example_task ''a'' [] 1) of
      (Inr r, t, c) \<Rightarrow>
        tr_status r = ''failed'' \<and> tr_error_message r = Some (WorkerText ''boom'') \<and>
        status t = ''completed'' \<and> retry_count t = 0 \<and> max_retries t = 3 \<and>
        invocations c = [''a'']
    | (Inl e, t, c) \<Rightarrow> False)"
  by code_simp

text \<open>
  C1 at a failing input. Task "a" has no retry budget and its worker raises "boom";
  task "b" depends on "a". The exception of the coroutine of "a" stays in its asyncio
  task: the scheduler moves "a" to the completed set, starts "b" afterwards, and
  execute_workflow returns normally with the workflow completed and no error message.
\<close>

theorem failed_task_does_not_fail_workflow:
  "(case execute_workflow 5
           (\<lambda>tid k. if tid = ''a'' then Raises (Exception (WorkerText ''boom''))
                      else Returns (success_result tid))
           (\<lambda>n i. True)
           (with_workflow [(example_task ''a'' [] 1)\<lparr>max_retries := 0\<rparr>,
                           example_task ''b'' [''a''] 1]) ''wf'' of
      Some (Inr w, c) \<Rightarrow>
        wf_status w = COMPLETED \<and> error_message w = None \<and> progress w = 100 \<and>
        map status (tasks w) = [''failed'', ''completed''] \<and>
        invocations c = [''a'', ''b'']
    | Some (Inl e, c) \<Rightarrow> False
    | None \<Rightarrow> False)"
  by code_simp

text \<open>
  C7 at a failing input. The only task of the workflow has max_retries = 2 and its worker
  raises "boom" at every invocation. The worker is invoked three times and the task ends
  "failed" with that message, as the claim says; but the workflow ends completed, with
  progress 100 and no error message, and execute_workflow returns normally.
\<close>

theorem always_failing_task_three_attempts:
  "(case execute_workflow 5
           (\<lambda>tid k. Raises (Exception (WorkerText ''boom'')))
           (\<lambda>n i. True)
           (with_workflow [(example_task ''a'' [] 1)\<lparr>max_retries := 2\<rparr>]) ''wf'' of
      Some (Inr w, c) \<Rightarrow>
        invocations c = [''a'', ''a'', ''a''] \<and>
        map status (tasks w) = [''failed''] \<and>
        map retry_count (tasks w) = [2] \<and>
        map (\<lambda>t. map_option tr_error_message (result t)) (tasks w)
          = [Some (Some (TaskFailedText ''a'' (WorkerText ''boom'')))] \<and>
        wf_status w = COMPLETED \<and> error_message w = None \<and> progress w = 100
    | Some (Inl e, c) \<Rightarrow> False
    | None \<Rightarrow> False)"
  by code_simp

section \<open>What the steps of the scheduler keep\<close>

lemma no_agent_step:
  "agents c (agent_id t) = None \<Longrightarrow>
     execute_single_task env k c t = (Inl (KeyError (agent_id t)), t, c)"
  by (subst execute_single_task.simps) simp

lemma exec_keeps_aux:
  "execute_single_task env k c t = (r, t', c') \<Longrightarrow>
   n = nat (max_retries t - retry_count t) \<Longrightarrow>
     task_id t' = task_id t \<and> max_concurrent_tasks c' = max_concurrent_tasks c"
proof (induction n arbitrary: k c t)
  case 0
  then have ge: "\<not> retry_count t < max_retries t" by simp
  show ?case
  proof (cases "agents c (agent_id t)")
    case None
    with "0.prems" show ?thesis by (simp add: no_agent_step)
  next
    case (Some a)
    with "0.prems" ge show ?thesis
      by (cases "env (task_id t) k") (auto simp: timeout_step raise_step return_step)
  qed
next
  case (Suc n)
  then have lt: "retry_count t < max_retries t" by simp
  show ?case
  proof (cases "agents c (agent_id t)")
    case None
    with Suc.prems show ?thesis by (simp add: no_agent_step)
  next
    case (Some a)
    show ?thesis
    proof (cases "env (task_id t) k")
      case (Returns x)
      with Some Suc.prems show ?thesis by (auto simp: return_step)
    next
      case TimesOut
      with Some Suc.prems lt
      have "execute_single_task env (Suc k) (c\<lparr>invocations := invocations c @ [task_id t]\<rparr>)
             (t\<lparr>result := Some (failed_result t (TaskTimeoutText (task_id t) (timeout t))),
                retry_count := retry_count t + 1, status := ''pending''\<rparr>) = (r, t', c')"
        by (simp add: timeout_step)
      from Suc.IH [OF this] Suc.prems(2) show ?thesis by simp
    next
      case (Raises e)
      with Some Suc.prems lt
      have "execute_single_task env (Suc k) (c\<lparr>invocations := invocations c @ [task_id t]\<rparr>)
             (t\<lparr>result := Some (failed_result t (TaskFailedText (task_id t) (str_exn e))),
                retry_count := retry_count t + 1, status := ''pending''\<rparr>) = (r, t', c')"
        by (simp add: raise_step)
      from Suc.IH [OF this] Suc.prems(2) show ?thesis by simp
    qed
  qed
qed

lemma exec_keeps:
  "execute_single_task env k c t = (r, t', c') \<Longrightarrow>
     task_id t' = task_id t \<and> max_concurrent_tasks c' = max_concurrent_tasks c"
  by (rule exec_keeps_aux [OF _ refl])

lemma ids_update:
  "task_id t' = task_id (ts ! i) \<Longrightarrow> map task_id (ts[i := t']) = map task_id ts"
  by (cases "i < length ts") (simp_all add: map_update list_update_same_conv list_update_beyond)

lemma start_task_proj:
  "coord (start_task s i) = coord s"
  "completed_tasks (start_task s i) = completed_tasks s"
  "waits (start_task s i) = waits s"
  "progress (wf (start_task s i)) = progress (wf s)"
  "map task_id (tasks (wf (start_task s i))) = map task_id (tasks (wf s))"
  by (simp_all add: start_task_def Let_def ids_update)

lemma dict_set_length: "length (dict_set k v r) \<le> Suc (length r)"
  by (simp add: dict_set_def)

lemma map_fst_replace:
  "map fst (map (\<lambda>(k', v'). if k' = k then (k', v) else (k', v')) r) = map fst r"
  by (induction r) auto

lemma dict_set_keys: "set (map fst (dict_set k v r)) = insert k (set (map fst r))"
proof (cases "in_dict k r")
  case True
  then have "map fst (dict_set k v r) = map fst r"
    unfolding dict_set_def by (simp only: if_True map_fst_replace)
  moreover from True have "k \<in> set (map fst r)" by (simp add: in_dict_def)
  ultimately show ?thesis by auto
next
  case False
  then show ?thesis by (simp add: dict_set_def)
qed

lemma start_task_running:
  "length (running_tasks (start_task s i)) \<le> Suc (length (running_tasks s))"
  "set (map fst (running_tasks (start_task s i)))
     = insert (task_id (tasks (wf s) ! i)) (set (map fst (running_tasks s)))"
  by (simp_all add: start_task_def Let_def dict_set_length dict_set_keys del: set_map)

lemma foldl_start_proj:
  "coord (foldl start_task s xs) = coord s"
  "completed_tasks (foldl start_task s xs) = completed_tasks s"
  "waits (foldl start_task s xs) = waits s"
  "progress (wf (foldl start_task s xs)) = progress (wf s)"
  "map task_id (tasks (wf (foldl start_task s xs))) = map task_id (tasks (wf s))"
  by (induction xs arbitrary: s) (simp_all add: start_task_proj)

lemma foldl_start_length:
  "length (running_tasks (foldl start_task s xs)) \<le> length (running_tasks s) + length xs"
proof (induction xs arbitrary: s)
  case Nil
  show ?case by simp
next
  case (Cons x xs)
  have "length (running_tasks (foldl start_task (start_task s x) xs))
          \<le> length (running_tasks (start_task s x)) + length xs"
    by (rule Cons.IH)
  also have "\<dots> \<le> Suc (length (running_tasks s)) + length xs"
    by (simp add: start_task_running)
  finally show ?case by simp
qed

lemma foldl_start_keys:
  "\<forall>i \<in> set xs. i < length (tasks (wf s)) \<Longrightarrow>
   set (map fst (running_tasks s)) \<subseteq> set (map task_id (tasks (wf s))) \<Longrightarrow>
   set (map fst (running_tasks (foldl start_task s xs))) \<subseteq> set (map task_id (tasks (wf s)))"
proof (induction xs arbitrary: s)
  case Nil
  then show ?case by simp
next
  case (Cons x xs)
  have len: "length (tasks (wf (start_task s x))) = length (tasks (wf s))"
    using start_task_proj(5) [of s x] by (metis length_map)
  have ids: "map task_id (tasks (wf (start_task s x))) = map task_id (tasks (wf s))"
    by (rule start_task_proj)
  have "task_id (tasks (wf s) ! x) \<in> set (map task_id (tasks (wf s)))"
    using Cons.prems(1) by simp
  then have "set (map fst (running_tasks (start_task s x)))
      \<subseteq> set (map task_id (tasks (wf (start_task s x))))"
    using Cons.prems(2) unfolding ids start_task_running by blast
  moreover have "\<forall>i \<in> set xs. i < length (tasks (wf (start_task s x)))"
    using Cons.prems(1) len by simp
  ultimately have "set (map fst (running_tasks (foldl start_task (start_task s x) xs)))
      \<subseteq> set (map task_id (tasks (wf (start_task s x))))"
    by (rule Cons.IH [rotated])
  then show ?case unfolding ids by simp
qed

lemma slice_to_length: "0 \<le> k \<Longrightarrow> int (length (slice_to k xs)) \<le> k"
  by (simp add: slice_to_def)

lemma slice_to_subset: "set (slice_to k xs) \<subseteq> set xs"
  by (auto simp: slice_to_def dest: in_set_takeD)

lemma ready_in_range: "i \<in> set (get_ready_tasks w cs r) \<Longrightarrow> i < length (tasks w)"
  by (simp add: get_ready_tasks_def)

lemma tasks_to_start_in_range:
  "i \<in> set (tasks_to_start s) \<Longrightarrow> i < length (tasks (wf s))"
  by (auto simp: tasks_to_start_def Let_def dest!: subsetD [OF slice_to_subset] ready_in_range)

lemma tasks_to_start_length:
  "int (length (running_tasks s)) \<le> max_concurrent_tasks (coord s) \<Longrightarrow>
   int (length (tasks_to_start s))
     \<le> max_concurrent_tasks (coord s) - int (length (running_tasks s))"
  by (simp add: tasks_to_start_def Let_def slice_to_length)

lemma dispatch_proj:
  "coord (dispatch s) = coord s"
  "completed_tasks (dispatch s) = completed_tasks s"
  "waits (dispatch s) = waits s"
  "progress (wf (dispatch s)) = progress (wf s)"
  "map task_id (tasks (wf (dispatch s))) = map task_id (tasks (wf s))"
  by (simp_all add: dispatch_def foldl_start_proj)

lemma dispatch_length:
  assumes "int (length (running_tasks s)) \<le> max_concurrent_tasks (coord s)"
  shows "int (length (running_tasks (dispatch s))) \<le> max_concurrent_tasks (coord s)"
proof -
  have "length (running_tasks (dispatch s))
          \<le> length (running_tasks s) + length (tasks_to_start s)"
    unfolding dispatch_def by (rule foldl_start_length)
  with tasks_to_start_length [OF assms] show ?thesis by linarith
qed

lemma dispatch_keys:
  "set (map fst (running_tasks s)) \<subseteq> set (map task_id (tasks (wf s))) \<Longrightarrow>
   set (map fst (running_tasks (dispatch s))) \<subseteq> set (map task_id (tasks (wf s)))"
  unfolding dispatch_def by (rule foldl_start_keys) (auto dest: tasks_to_start_in_range)

lemma length_ids: "map task_id ts' = map task_id ts \<Longrightarrow> length ts' = length ts"
  by (metis length_map)

lemma dispatch_inv:
  assumes "sched_inv s"
  shows "sched_inv (dispatch s)"
  using assms dispatch_keys [of s] unfolding sched_inv_def
  by (simp add: dispatch_proj del: set_map)

lemma dispatch_progress:
  assumes "progress_bounded s"
  shows "progress_bounded (dispatch s)"
proof -
  have len: "length (tasks (wf (dispatch s))) = length (tasks (wf s))"
    by (rule length_ids) (rule dispatch_proj)
  show ?thesis
    using assms unfolding progress_bounded_def by (simp add: dispatch_proj len)
qed

lemma map_fst_mark:
  "map fst (map (\<lambda>(k, (j, d)). if j = i then (k, (j, Some res)) else (k, (j, d))) r) = map fst r"
  by (induction r) auto

lemma finish_proj:
  "completed_tasks (finish env s i) = completed_tasks s"
  "waits (finish env s i) = waits s"
  "progress (wf (finish env s i)) = progress (wf s)"
  "map task_id (tasks (wf (finish env s i))) = map task_id (tasks (wf s))"
  "max_concurrent_tasks (coord (finish env s i)) = max_concurrent_tasks (coord s)"
  "map fst (running_tasks (finish env s i)) = map fst (running_tasks s)"
proof -
  obtain res t' c' where
    e: "execute_single_task env 0 (coord s) (tasks (wf s) ! i) = (res, t', c')"
    by (cases "execute_single_task env 0 (coord s) (tasks (wf s) ! i)") auto
  note k = exec_keeps [OF e]
  show "completed_tasks (finish env s i) = completed_tasks s"
    "waits (finish env s i) = waits s"
    "progress (wf (finish env s i)) = progress (wf s)"
    "map task_id (tasks (wf (finish env s i))) = map task_id (tasks (wf s))"
    "max_concurrent_tasks (coord (finish env s i)) = max_concurrent_tasks (coord s)"
    "map fst (running_tasks (finish env s i)) = map fst (running_tasks s)"
    using k by (simp_all add: finish_def e ids_update map_fst_mark del: map_map)
qed

lemma foldl_finish_proj:
  "completed_tasks (foldl (finish env) s xs) = completed_tasks s"
  "waits (foldl (finish env) s xs) = waits s"
  "progress (wf (foldl (finish env) s xs)) = progress (wf s)"
  "map task_id (tasks (wf (foldl (finish env) s xs))) = map task_id (tasks (wf s))"
  "max_concurrent_tasks (coord (foldl (finish env) s xs)) = max_concurrent_tasks (coord s)"
  "map fst (running_tasks (foldl (finish env) s xs)) = map fst (running_tasks s)"
  by (induction xs arbitrary: s) (simp_all add: finish_proj)

lemma find_task_id_key:
  "find_task_id h r = Some tid \<Longrightarrow> tid \<in> set (map fst r)"
  by (auto simp: find_task_id_def find_Some_iff image_iff) (metis fst_conv nth_mem)

lemma dict_del_length: "length (dict_del k r) \<le> length r"
  by (simp add: dict_del_def)

lemma dict_del_keys: "set (map fst (dict_del k r)) \<subseteq> set (map fst r)"
  by (auto simp: dict_del_def)

lemma set_add_props:
  "distinct xs \<Longrightarrow> distinct (set_add x xs)"
  "set (set_add x xs) = insert x (set xs)"
  "length xs \<le> length (set_add x xs)"
  by (auto simp: set_add_def)

lemma handle_done_proj:
  assumes "handle_done s h = (e, s')"
  shows "coord s' = coord s" and "tasks (wf s') = tasks (wf s)" and "waits s' = waits s"
    and "length (running_tasks s') \<le> length (running_tasks s)"
  using assms
  by (auto simp: handle_done_def Let_def dict_del_length split: option.splits if_splits)

lemma progress_bound_mono:
  fixes p :: rat
  assumes "p \<le> of_nat a / of_nat n * 100" and "a \<le> b"
  shows "p \<le> of_nat b / of_nat n * 100"
proof -
  have "(of_nat a :: rat) / of_nat n \<le> of_nat b / of_nat n"
    using assms(2) by (simp add: divide_right_mono)
  then have "(of_nat a :: rat) / of_nat n * 100 \<le> of_nat b / of_nat n * 100"
    by (rule mult_right_mono) simp
  with assms(1) show ?thesis by linarith
qed

lemma handle_done_inv:
  assumes "handle_done s h = (e, s')" and "sched_inv s"
  shows "sched_inv s'"
proof (cases "find_task_id h (running_tasks s)")
  case None
  with assms show ?thesis by (simp add: handle_done_def)
next
  case (Some tid)
  show ?thesis
  proof (cases "tid = []")
    case True
    with Some assms show ?thesis by (simp add: handle_done_def)
  next
    case False
    let ?cs = "set_add tid (completed_tasks s)"
    let ?r = "dict_del tid (running_tasks s)"
    from assms(2) have d: "distinct (completed_tasks s)"
      and c: "set (completed_tasks s) \<subseteq> set (map task_id (tasks (wf s)))"
      and r: "set (map fst (running_tasks s)) \<subseteq> set (map task_id (tasks (wf s)))"
      by (simp_all add: sched_inv_def)
    from find_task_id_key [OF Some] r have tid: "tid \<in> set (map task_id (tasks (wf s)))"
      by blast
    have d': "distinct ?cs" using d by (rule set_add_props)
    have c': "set ?cs \<subseteq> set (map task_id (tasks (wf s)))"
      using c tid by (simp add: set_add_props del: set_map)
    have r': "set (map fst ?r) \<subseteq> set (map task_id (tasks (wf s)))"
      using r dict_del_keys [of tid "running_tasks s"] by blast
    from Some False assms(1)
    have "completed_tasks s' = ?cs \<and> running_tasks s' = ?r \<and> tasks (wf s') = tasks (wf s)"
      by (auto simp: handle_done_def Let_def split: if_splits)
    with d' c' r' show ?thesis by (simp add: sched_inv_def del: set_map)
  qed
qed

lemma handle_done_progress:
  assumes "handle_done s h = (e, s')" and "progress_bounded s"
  shows "progress_bounded s' \<and> progress (wf s) \<le> progress (wf s')"
proof (cases "find_task_id h (running_tasks s)")
  case None
  with assms show ?thesis by (simp add: handle_done_def)
next
  case (Some tid)
  show ?thesis
  proof (cases "tid = []")
    case True
    with Some assms show ?thesis by (simp add: handle_done_def)
  next
    case False
    let ?cs = "set_add tid (completed_tasks s)"
    let ?r = "dict_del tid (running_tasks s)"
    from assms(2)
    have p: "progress (wf s)
                \<le> of_nat (length (completed_tasks s)) / of_nat (length (tasks (wf s))) * 100"
      by (simp add: progress_bounded_def)
    have p': "progress (wf s) \<le> of_nat (length ?cs) / of_nat (length (tasks (wf s))) * 100"
      using p set_add_props(3) by (rule progress_bound_mono)
    show ?thesis
    proof (cases "length (tasks (wf s)) = 0")
      case True
      with Some False assms(1) have "s' = s\<lparr>running_tasks := ?r, completed_tasks := ?cs\<rparr>"
        by (simp add: handle_done_def Let_def)
      with p' show ?thesis by (simp add: progress_bounded_def)
    next
      case nz: False
      with Some False assms(1)
      have "s' = s\<lparr>running_tasks := ?r, completed_tasks := ?cs,
                     wf := (wf s)\<lparr>progress := of_nat (length ?cs)
                                       / of_nat (length (tasks (wf s))) * 100\<rparr>\<rparr>"
        by (simp add: handle_done_def Let_def)
      with p' show ?thesis by (simp add: progress_bounded_def)
    qed
  qed
qed

lemma handle_all_proj:
  "handle_all s hs = (e, s') \<Longrightarrow>
     coord s' = coord s \<and> tasks (wf s') = tasks (wf s) \<and> waits s' = waits s \<and>
     length (running_tasks s') \<le> length (running_tasks s)"
proof (induction hs arbitrary: s)
  case Nil
  then show ?case by simp
next
  case (Cons h hs)
  obtain e1 s1 where h: "handle_done s h = (e1, s1)" by (cases "handle_done s h") auto
  note p = handle_done_proj [OF h]
  show ?case
  proof (cases e1)
    case None
    with Cons.prems h have "handle_all s1 hs = (e, s')" by simp
    from Cons.IH [OF this] p show ?thesis by simp
  next
    case (Some x)
    with Cons.prems h have "s' = s1" by simp
    with p show ?thesis by simp
  qed
qed

lemma handle_all_inv:
  "handle_all s hs = (e, s') \<Longrightarrow> sched_inv s \<Longrightarrow> sched_inv s'"
proof (induction hs arbitrary: s)
  case Nil
  then show ?case by simp
next
  case (Cons h hs)
  obtain e1 s1 where h: "handle_done s h = (e1, s1)" by (cases "handle_done s h") auto
  note i = handle_done_inv [OF h Cons.prems(2)]
  show ?case
  proof (cases e1)
    case None
    with Cons.prems h have "handle_all s1 hs = (e, s')" by simp
    from Cons.IH [OF this i] show ?thesis .
  next
    case (Some x)
    with Cons.prems h have "s' = s1" by simp
    with i show ?thesis by simp
  qed
qed

lemma handle_all_progress:
  "handle_all s hs = (e, s') \<Longrightarrow> progress_bounded s \<Longrightarrow>
     progress_bounded s' \<and> progress (wf s) \<le> progress (wf s')"
proof (induction hs arbitrary: s)
  case Nil
  then show ?case by simp
next
  case (Cons h hs)
  obtain e1 s1 where h: "handle_done s h = (e1, s1)" by (cases "handle_done s h") auto
  note i = handle_done_progress [OF h Cons.prems(2)]
  show ?case
  proof (cases e1)
    case None
    with Cons.prems h have "handle_all s1 hs = (e, s')" by simp
    from Cons.IH [OF this] i show ?thesis by auto
  next
    case (Some x)
    with Cons.prems h have "s' = s1" by simp
    with i show ?thesis by simp
  qed
qed

lemma foldl_finish_inv:
  assumes "sched_inv s"
  shows "sched_inv (foldl (finish env) s xs)"
  using assms unfolding sched_inv_def
  by (simp add: foldl_finish_proj del: set_map)

lemma foldl_finish_progress:
  assumes "progress_bounded s"
  shows "progress_bounded (foldl (finish env) s xs)"
proof -
  have len: "length (tasks (wf (foldl (finish env) s xs))) = length (tasks (wf s))"
    by (rule length_ids) (rule foldl_finish_proj)
  show ?thesis
    using assms unfolding progress_bounded_def
    by (simp add: foldl_finish_proj len)
qed

lemma foldl_finish_length:
  "length (running_tasks (foldl (finish env) s xs)) = length (running_tasks s)"
  using foldl_finish_proj(6) [of env s xs] by (metis length_map)

lemma waits_update_inv:
  "sched_inv (s\<lparr>waits := n\<rparr>) = sched_inv s"
  "progress_bounded (s\<lparr>waits := n\<rparr>) = progress_bounded s"
  by (simp_all add: sched_inv_def progress_bounded_def)

lemma wait_keeps:
  assumes "wait_first_completed env sched s = (e, s')"
  shows "max_concurrent_tasks (coord s') = max_concurrent_tasks (coord s)"
    and "map task_id (tasks (wf s')) = map task_id (tasks (wf s))"
    and "length (running_tasks s') \<le> length (running_tasks s)"
proof -
  let ?s1 = "foldl (finish env) s (ending sched s)"
  from assms obtain hs where h: "handle_all (?s1\<lparr>waits := Suc (waits ?s1)\<rparr>) hs = (e, s')"
    by (auto simp: wait_first_completed_def Let_def)
  from handle_all_proj [OF h]
  have c: "coord s' = coord ?s1" and t: "tasks (wf s') = tasks (wf ?s1)"
    and l: "length (running_tasks s') \<le> length (running_tasks ?s1)"
    by simp_all
  show "max_concurrent_tasks (coord s') = max_concurrent_tasks (coord s)"
    using c by (simp add: foldl_finish_proj)
  show "map task_id (tasks (wf s')) = map task_id (tasks (wf s))"
    using t by (simp add: foldl_finish_proj)
  show "length (running_tasks s') \<le> length (running_tasks s)"
    using l by (simp add: foldl_finish_length)
qed

lemma wait_inv:
  assumes "wait_first_completed env sched s = (e, s')" and "sched_inv s"
  shows "sched_inv s'"
proof -
  let ?s1 = "foldl (finish env) s (ending sched s)"
  from assms obtain hs where h: "handle_all (?s1\<lparr>waits := Suc (waits ?s1)\<rparr>) hs = (e, s')"
    by (auto simp: wait_first_completed_def Let_def)
  have "sched_inv (?s1\<lparr>waits := Suc (waits ?s1)\<rparr>)"
    using assms(2) by (simp add: waits_update_inv foldl_finish_inv)
  from handle_all_inv [OF h this] show ?thesis .
qed

lemma wait_progress:
  assumes "wait_first_completed env sched s = (e, s')" and "progress_bounded s"
  shows "progress_bounded s' \<and> progress (wf s) \<le> progress (wf s')"
proof -
  let ?s1 = "foldl (finish env) s (ending sched s)"
  from assms obtain hs where h: "handle_all (?s1\<lparr>waits := Suc (waits ?s1)\<rparr>) hs = (e, s')"
    by (auto simp: wait_first_completed_def Let_def)
  have "progress_bounded (?s1\<lparr>waits := Suc (waits ?s1)\<rparr>)"
    using assms(2) by (simp add: waits_update_inv foldl_finish_progress)
  from handle_all_progress [OF h this] show ?thesis by (simp add: foldl_finish_proj)
qed

lemma loop_body_keeps:
  assumes "loop_body env sched s = (ctl, s')"
  shows "max_concurrent_tasks (coord s') = max_concurrent_tasks (coord s)"
    and "map task_id (tasks (wf s')) = map task_id (tasks (wf s))"
    and "length (running_tasks s') \<le> length (running_tasks (dispatch s))"
proof -
  obtain e s2 where w: "(if running_tasks (dispatch s) \<noteq> []
                         then wait_first_completed env sched (dispatch s)
                         else (None, dispatch s)) = (e, s2)"
    by (cases "if running_tasks (dispatch s) \<noteq> []
               then wait_first_completed env sched (dispatch s)
               else (None, dispatch s)") auto
  from assms w have s': "s' = s2"
    by (auto simp: loop_body_def Let_def split: option.splits if_splits)
  have "max_concurrent_tasks (coord s2) = max_concurrent_tasks (coord (dispatch s)) \<and>
        map task_id (tasks (wf s2)) = map task_id (tasks (wf (dispatch s))) \<and>
        length (running_tasks s2) \<le> length (running_tasks (dispatch s))"
    using w wait_keeps [of env sched "dispatch s" e s2] by (auto split: if_splits)
  then show "max_concurrent_tasks (coord s') = max_concurrent_tasks (coord s)"
    and "map task_id (tasks (wf s')) = map task_id (tasks (wf s))"
    and "length (running_tasks s') \<le> length (running_tasks (dispatch s))"
    by (simp_all add: s' dispatch_proj)
qed

lemma loop_body_inv:
  assumes "loop_body env sched s = (ctl, s')" and "sched_inv s"
  shows "sched_inv s'"
proof -
  obtain e s2 where w: "(if running_tasks (dispatch s) \<noteq> []
                         then wait_first_completed env sched (dispatch s)
                         else (None, dispatch s)) = (e, s2)"
    by (cases "if running_tasks (dispatch s) \<noteq> []
               then wait_first_completed env sched (dispatch s)
               else (None, dispatch s)") auto
  from assms w have s': "s' = s2"
    by (auto simp: loop_body_def Let_def split: option.splits if_splits)
  have d: "sched_inv (dispatch s)" using assms(2) by (rule dispatch_inv)
  have "sched_inv s2"
    using w d wait_inv [of env sched "dispatch s" e s2] by (auto split: if_splits)
  then show ?thesis by (simp add: s')
qed

lemma loop_body_progress:
  assumes "loop_body env sched s = (ctl, s')" and "progress_bounded s"
  shows "progress_bounded s' \<and> progress (wf s) \<le> progress (wf s')"
proof -
  obtain e s2 where w: "(if running_tasks (dispatch s) \<noteq> []
                         then wait_first_completed env sched (dispatch s)
                         else (None, dispatch s)) = (e, s2)"
    by (cases "if running_tasks (dispatch s) \<noteq> []
               then wait_first_completed env sched (dispatch s)
               else (None, dispatch s)") auto
  from assms w have s': "s' = s2"
    by (auto simp: loop_body_def Let_def split: option.splits if_splits)
  have d: "progress_bounded (dispatch s)" using assms(2) by (rule dispatch_progress)
  have "progress_bounded s2 \<and> progress (wf (dispatch s)) \<le> progress (wf s2)"
    using w d wait_progress [of env sched "dispatch s" e s2] by (auto split: if_splits)
  then show ?thesis by (simp add: s' dispatch_proj)
qed

lemma loop_body_bound:
  assumes "loop_body env sched s = (ctl, s')"
    and "int (length (running_tasks s)) \<le> max_concurrent_tasks (coord s)"
  shows "int (length (running_tasks s')) \<le> max_concurrent_tasks (coord s')"
  using loop_body_keeps [OF assms(1)] dispatch_length [OF assms(2)] by linarith

lemma state_at_inv:
  "state_at k env sched s0 = Some s \<Longrightarrow> sched_inv s0 \<Longrightarrow>
     sched_inv s \<and> map task_id (tasks (wf s)) = map task_id (tasks (wf s0))"
proof (induction k arbitrary: s0)
  case 0
  then show ?case by simp
next
  case (Suc k)
  from Suc.prems(1) obtain s1 where b: "loop_body env sched s0 = (Continue, s1)"
    and r: "state_at k env sched s1 = Some s"
    by (auto split: if_splits prod.splits control.splits)
  from loop_body_inv [OF b Suc.prems(2)] loop_body_keeps(2) [OF b] Suc.IH [OF r]
  show ?case by auto
qed

lemma state_at_progress:
  "state_at k env sched s0 = Some s \<Longrightarrow> progress_bounded s0 \<Longrightarrow>
     progress_bounded s \<and> progress (wf s0) \<le> progress (wf s)"
proof (induction k arbitrary: s0)
  case 0
  then show ?case by simp
next
  case (Suc k)
  from Suc.prems(1) obtain s1 where b: "loop_body env sched s0 = (Continue, s1)"
    and r: "state_at k env sched s1 = Some s"
    by (auto split: if_splits prod.splits control.splits)
  from loop_body_progress [OF b Suc.prems(2)] Suc.IH [OF r]
  show ?case by auto
qed

lemma state_at_bound:
  "state_at k env sched s0 = Some s \<Longrightarrow>
   int (length (running_tasks s0)) \<le> max_concurrent_tasks (coord s0) \<Longrightarrow>
     int (length (running_tasks s)) \<le> max_concurrent_tasks (coord s) \<and>
     max_concurrent_tasks (coord s) = max_concurrent_tasks (coord s0)"
proof (induction k arbitrary: s0)
  case 0
  then show ?case by simp
next
  case (Suc k)
  from Suc.prems(1) obtain s1 where b: "loop_body env sched s0 = (Continue, s1)"
    and r: "state_at k env sched s1 = Some s"
    by (auto split: if_splits prod.splits control.splits)
  from loop_body_bound [OF b Suc.prems(2)] loop_body_keeps(1) [OF b] Suc.IH [OF r]
  show ?case by auto
qed

lemma state_at_run:
  "state_at k env sched s0 = Some s \<Longrightarrow>
     execute_workflow_tasks (k + n) env sched s0 = execute_workflow_tasks n env sched s"
proof (induction k arbitrary: s0)
  case 0
  then show ?case by simp
next
  case (Suc k)
  from Suc.prems(1) have g: "length (completed_tasks s0) < length (tasks (wf s0))"
    by (auto split: if_splits)
  from Suc.prems(1) obtain s1 where b: "loop_body env sched s0 = (Continue, s1)"
    and r: "state_at k env sched s1 = Some s"
    by (auto split: if_splits prod.splits control.splits)
  from Suc.IH [OF r] g b show ?case by simp
qed

lemma init_state_inv: "sched_inv (init_state c w)"
  by (simp add: sched_inv_def init_state_def)

lemma init_state_progress: "progress w \<le> 0 \<Longrightarrow> progress_bounded (init_state c w)"
  by (simp add: progress_bounded_def init_state_def)

lemma inv_length_le:
  assumes "sched_inv s"
  shows "length (completed_tasks s) \<le> length (tasks (wf s))"
proof -
  from assms have d: "distinct (completed_tasks s)"
    and c: "set (completed_tasks s) \<subseteq> set (map task_id (tasks (wf s)))"
    by (simp_all add: sched_inv_def)
  have "length (completed_tasks s) = card (set (completed_tasks s))"
    using d by (simp add: distinct_card)
  also have "\<dots> \<le> card (set (map task_id (tasks (wf s))))"
    using c by (intro card_mono) simp_all
  also have "\<dots> \<le> length (map task_id (tasks (wf s)))" by (rule card_length)
  finally show ?thesis by simp
qed

lemma guard_from_inv:
  assumes "sched_inv s" and "\<exists>t \<in> set (tasks (wf s)). task_id t \<notin> set (completed_tasks s)"
  shows "length (completed_tasks s) < length (tasks (wf s))"
proof -
  from assms(1) have d: "distinct (completed_tasks s)"
    and c: "set (completed_tasks s) \<subseteq> set (map task_id (tasks (wf s)))"
    by (simp_all add: sched_inv_def)
  from assms(2) c have "set (completed_tasks s) \<subset> set (map task_id (tasks (wf s)))"
    by auto
  then have "card (set (completed_tasks s)) < card (set (map task_id (tasks (wf s))))"
    by (intro psubset_card_mono) simp_all
  moreover have "length (completed_tasks s) = card (set (completed_tasks s))"
    using d by (simp add: distinct_card)
  moreover have "card (set (map task_id (tasks (wf s)))) \<le> length (map task_id (tasks (wf s)))"
    by (rule card_length)
  ultimately show ?thesis by simp
qed

lemma handle_done_raise:
  "handle_done s h = (Some x, s') \<Longrightarrow> length (tasks (wf s')) = 0"
  by (auto simp: handle_done_def Let_def split: option.splits if_splits)

lemma handle_all_raise:
  "handle_all s hs = (Some x, s') \<Longrightarrow> length (tasks (wf s')) = 0"
proof (induction hs arbitrary: s)
  case Nil
  then show ?case by simp
next
  case (Cons h hs)
  obtain e1 s1 where h: "handle_done s h = (e1, s1)" by (cases "handle_done s h") auto
  show ?case
  proof (cases e1)
    case None
    with Cons.prems h have "handle_all s1 hs = (Some x, s')" by simp
    from Cons.IH [OF this] show ?thesis .
  next
    case (Some y)
    with Cons.prems h have "s' = s1" by simp
    with h Some show ?thesis by (simp add: handle_done_raise)
  qed
qed

lemma wait_raise:
  "wait_first_completed env sched s = (Some x, s') \<Longrightarrow> length (tasks (wf s')) = 0"
  by (auto simp: wait_first_completed_def Let_def dest: handle_all_raise)

lemma loop_body_raised:
  assumes "loop_body env sched s = (Raised x, s')" and "sched_inv s'"
  shows "length (tasks (wf s')) = 0 \<or> length (completed_tasks s') < length (tasks (wf s'))"
proof -
  obtain e s2 where w: "(if running_tasks (dispatch s) \<noteq> []
                         then wait_first_completed env sched (dispatch s)
                         else (None, dispatch s)) = (e, s2)"
    by (cases "if running_tasks (dispatch s) \<noteq> []
               then wait_first_completed env sched (dispatch s)
               else (None, dispatch s)") auto
  from assms(1) w have s': "s' = s2"
    by (auto simp: loop_body_def Let_def split: option.splits if_splits)
  show ?thesis
  proof (cases e)
    case (Some y)
    with w have "wait_first_completed env sched (dispatch s) = (Some y, s2)"
      by (auto split: if_splits)
    from wait_raise [OF this] s' show ?thesis by simp
  next
    case None
    with assms(1) w s'
    have "filter (\<lambda>t. task_id t \<notin> set (completed_tasks s')) (tasks (wf s')) \<noteq> []"
      by (auto simp: loop_body_def Let_def split: if_splits)
    then have "\<exists>t \<in> set (tasks (wf s')). task_id t \<notin> set (completed_tasks s')"
      by (simp add: filter_empty_conv)
    from guard_from_inv [OF assms(2) this] show ?thesis by simp
  qed
qed

lemma times_100:
  fixes x :: rat
  shows "x < 1 \<Longrightarrow> x * 100 < 100" and "x \<le> 1 \<Longrightarrow> x * 100 \<le> 100"
  using mult_strict_right_mono [of x 1 100] mult_right_mono [of x 1 100] by simp_all

lemma bounded_below_100:
  assumes "progress_bounded s"
    and "length (tasks (wf s)) = 0 \<or> length (completed_tasks s) < length (tasks (wf s))"
  shows "progress (wf s) < 100"
proof (cases "length (tasks (wf s)) = 0")
  case True
  with assms(1) show ?thesis by (simp add: progress_bounded_def)
next
  case False
  with assms(2) have lt: "length (completed_tasks s) < length (tasks (wf s))" by simp
  then have "(of_nat (length (completed_tasks s)) :: rat) / of_nat (length (tasks (wf s))) < 1"
    by (simp add: divide_less_eq_1)
  then have "(of_nat (length (completed_tasks s)) :: rat) / of_nat (length (tasks (wf s))) * 100
               < 100"
    by (rule times_100)
  with assms(1) show ?thesis unfolding progress_bounded_def by linarith
qed

lemma bounded_at_most_100:
  assumes "progress_bounded s" and "sched_inv s"
  shows "progress (wf s) \<le> 100"
proof -
  have "length (completed_tasks s) \<le> length (tasks (wf s))"
    using assms(2) by (rule inv_length_le)
  then have "(of_nat (length (completed_tasks s)) :: rat) / of_nat (length (tasks (wf s))) \<le> 1"
    by (simp add: divide_le_eq_1)
  then have "(of_nat (length (completed_tasks s)) :: rat) / of_nat (length (tasks (wf s))) * 100
               \<le> 100"
    by (rule times_100)
  with assms(1) show ?thesis unfolding progress_bounded_def by linarith
qed

lemma run_final:
  "execute_workflow_tasks fuel env sched s0 = Some (e, sf) \<Longrightarrow>
   sched_inv s0 \<Longrightarrow> progress_bounded s0 \<Longrightarrow>
     sched_inv sf \<and> progress_bounded sf \<and> progress (wf s0) \<le> progress (wf sf) \<and>
     (e \<noteq> None \<longrightarrow> progress (wf sf) < 100)"
proof (induction fuel arbitrary: s0)
  case 0
  then show ?case by simp
next
  case (Suc fuel)
  show ?case
  proof (cases "length (completed_tasks s0) < length (tasks (wf s0))")
    case False
    with Suc.prems show ?thesis by simp
  next
    case True
    obtain ctl s1 where b: "loop_body env sched s0 = (ctl, s1)"
      by (cases "loop_body env sched s0") auto
    note i = loop_body_inv [OF b Suc.prems(2)]
    note p = loop_body_progress [OF b Suc.prems(3)]
    show ?thesis
    proof (cases ctl)
      case Continue
      with True b Suc.prems(1) have "execute_workflow_tasks fuel env sched s1 = Some (e, sf)"
        by simp
      from Suc.IH [OF this i] p show ?thesis by auto
    next
      case Break
      with True b Suc.prems(1) have "e = None" "sf = s1" by simp_all
      with i p show ?thesis by simp
    next
      case (Raised x)
      with True b Suc.prems(1) have sf: "sf = s1" by simp
      from b Raised have "loop_body env sched s0 = (Raised x, s1)" by simp
      from loop_body_raised [OF this i] p have "progress (wf s1) < 100"
        by (intro bounded_below_100) simp_all
      with i p sf show ?thesis by simp
    qed
  qed
qed

lemma state_at_out_of_fuel:
  "state_at k env sched s0 = Some s \<Longrightarrow> fuel \<le> k \<Longrightarrow>
     execute_workflow_tasks fuel env sched s0 = None"
proof (induction k arbitrary: s0 fuel)
  case 0
  then show ?case by simp
next
  case (Suc k)
  from Suc.prems(1) have g: "length (completed_tasks s0) < length (tasks (wf s0))"
    by (auto split: if_splits)
  from Suc.prems(1) obtain s1 where b: "loop_body env sched s0 = (Continue, s1)"
    and r: "state_at k env sched s1 = Some s"
    by (auto split: if_splits prod.splits control.splits)
  show ?case
  proof (cases fuel)
    case 0
    then show ?thesis by simp
  next
    case (Suc f)
    with Suc.prems(2) have "f \<le> k" by simp
    from Suc.IH [OF r this] g b Suc show ?thesis by simp
  qed
qed

lemma run_from_visited:
  assumes "state_at k env sched s0 = Some s"
    and "execute_workflow_tasks fuel env sched s0 = Some r"
  shows "\<exists>n. execute_workflow_tasks n env sched s = Some r"
proof -
  have "k < fuel"
  proof (rule ccontr)
    assume "\<not> k < fuel"
    then have "fuel \<le> k" by simp
    from state_at_out_of_fuel [OF assms(1) this] assms(2) show False by simp
  qed
  then obtain n where "fuel = k + n" using less_imp_add_positive by blast
  with state_at_run [OF assms(1), of n] assms(2) show ?thesis by auto
qed

section \<open>The dead-end check\<close>

lemma dead_end_body:
  assumes "get_ready_tasks (wf s) (completed_tasks s) (running_tasks s) = []"
    and "running_tasks s = []"
    and "\<exists>t \<in> set (tasks (wf s)). task_id t \<notin> set (completed_tasks s)"
  shows "loop_body env sched s = (Raised (Exception (UnresolvedDepsText (unresolved_deps s))), s)"
proof -
  have d: "dispatch s = s"
    using assms(1) by (simp add: dispatch_def tasks_to_start_def slice_to_def Let_def)
  have "filter (\<lambda>t. task_id t \<notin> set (completed_tasks s)) (tasks (wf s)) \<noteq> []"
    using assms(3) by (simp add: filter_empty_conv)
  with assms(1,2) d show ?thesis by (simp add: loop_body_def)
qed

text \<open>
  C4: in every state that a run reaches at the head of the scheduler loop in which the
  ready list is empty, no task is dispatched and some task of the workflow has an id
  that is not completed, the loop raises at once, whatever the workers and the schedule,
  an exception whose text lists, for every task whose id is not completed, in workflow
  order, each of its dependencies that is not completed, as a pair (task id, dependency
  id); the scheduler state is left as it is, and execute_workflow ends with that
  exception, the workflow marked failed and its error message set to that text.
\<close>

theorem dead_end_raises:
  assumes "state_at k env sched (init_state c w) = Some s"
    and "get_ready_tasks (wf s) (completed_tasks s) (running_tasks s) = []"
    and "running_tasks s = []"
    and "\<exists>t \<in> set (tasks (wf s)). task_id t \<notin> set (completed_tasks s)"
  shows "execute_workflow_tasks (Suc n) env sched s =
           Some (Some (Exception (UnresolvedDepsText
             (concat (map (\<lambda>t. map (\<lambda>dep. (task_id t, dep))
                               (filter (\<lambda>dep. dep \<notin> set (completed_tasks s)) (dependencies t)))
                (filter (\<lambda>t. task_id t \<notin> set (completed_tasks s)) (tasks (wf s))))))), s) \<and>
         (workflows c wid = Some w \<longrightarrow>
            execute_workflow (k + Suc n) env sched c wid =
              Some (Inl (Exception (UnresolvedDepsText
                     (concat (map (\<lambda>t. map (\<lambda>dep. (task_id t, dep))
                               (filter (\<lambda>dep. dep \<notin> set (completed_tasks s)) (dependencies t)))
                        (filter (\<lambda>t. task_id t \<notin> set (completed_tasks s))
                           (tasks (wf s))))))),
                    (coord s)\<lparr>workflows := (workflows (coord s))(wid \<mapsto>
                       (wf s)\<lparr>wf_status := FAILED,
                              error_message := Some (UnresolvedDepsText
                     (concat (map (\<lambda>t. map (\<lambda>dep. (task_id t, dep))
                               (filter (\<lambda>dep. dep \<notin> set (completed_tasks s)) (dependencies t)))
                        (filter (\<lambda>t. task_id t \<notin> set (completed_tasks s))
                           (tasks (wf s))))))\<rparr>)\<rparr>))"
proof -
  have i: "sched_inv s"
    using state_at_inv [OF assms(1) init_state_inv] by simp
  have g: "length (completed_tasks s) < length (tasks (wf s))"
    using i assms(4) by (rule guard_from_inv)
  have b: "loop_body env sched s
             = (Raised (Exception (UnresolvedDepsText (unresolved_deps s))), s)"
    using assms(2,3,4) by (rule dead_end_body)
  have r: "execute_workflow_tasks (Suc n) env sched s
             = Some (Some (Exception (UnresolvedDepsText (unresolved_deps s))), s)"
    using g b by simp
  have "execute_workflow_tasks (k + Suc n) env sched (init_state c w)
          = Some (Some (Exception (UnresolvedDepsText (unresolved_deps s))), s)"
    using state_at_run [OF assms(1), of "Suc n"] r by simp
  then have "workflows c wid = Some w \<longrightarrow>
      execute_workflow (k + Suc n) env sched c wid =
        Some (Inl (Exception (UnresolvedDepsText (unresolved_deps s))),
              (coord s)\<lparr>workflows := (workflows (coord s))(wid \<mapsto>
                 (wf s)\<lparr>wf_status := FAILED,
                        error_message := Some (UnresolvedDepsText (unresolved_deps s))\<rparr>)\<rparr>)"
    by (simp add: execute_workflow_def store_def Let_def)
  with r show ?thesis unfolding unresolved_deps_def by blast
qed

theorem dead_end_raises_witness:
  "state_at 0 (\<lambda>tid j. Returns (success_result tid)) (\<lambda>n i. True)
     (init_state (with_workflow [example_task ''x'' [''x''] 1])
        (example_workflow [example_task ''x'' [''x''] 1]))
     = Some (init_state (with_workflow [example_task ''x'' [''x''] 1])
               (example_workflow [example_task ''x'' [''x''] 1])) \<and>
   workflows (with_workflow [example_task ''x'' [''x''] 1]) ''wf''
     = Some (example_workflow [example_task ''x'' [''x''] 1]) \<and>
   (case execute_workflow 1 (\<lambda>tid j. Returns (success_result tid)) (\<lambda>n i. True)
           (with_workflow [example_task ''x'' [''x''] 1]) ''wf'' of
      Some (Inl e, c') \<Rightarrow>
        e = Exception (UnresolvedDepsText [(''x'', ''x'')]) \<and>
        map_option wf_status (workflows c' ''wf'') = Some FAILED \<and>
        map_option error_message (workflows c' ''wf'')
          = Some (Some (UnresolvedDepsText [(''x'', ''x'')])) \<and>
        invocations c' = []
    | Some (Inr w', c') \<Rightarrow> False
    | None \<Rightarrow> False)"
proof -
  let ?c = "with_workflow [example_task ''x'' [''x''] 1]"
  let ?w = "example_workflow [example_task ''x'' [''x''] 1]"
  let ?env = "\<lambda>tid (j::nat). Returns (success_result tid)"
  let ?sched = "\<lambda>(n::nat) (i::nat). True"
  let ?s = "init_state ?c ?w"
  have 1: "state_at 0 ?env ?sched ?s = Some ?s" by simp
  have 2: "get_ready_tasks (wf ?s) (completed_tasks ?s) (running_tasks ?s) = []"
    by (simp add: init_state_def example_workflow_def example_task_def new_task_def
        get_ready_tasks_def skipped_def dependencies_met_def in_dict_def)
  have 3: "running_tasks ?s = []" by (simp add: init_state_def)
  have 4: "\<exists>t \<in> set (tasks (wf ?s)). task_id t \<notin> set (completed_tasks ?s)"
    by (simp add: init_state_def example_workflow_def)
  have 5: "workflows ?c ''wf'' = Some ?w" by (simp add: with_workflow_def)
  have 6: "k + Suc 0 = 1" if "k = 0" for k :: nat using that by simp
  from dead_end_raises [OF 1 2 3 4, of 0 "''wf''"] 5
  have "execute_workflow 1 ?env ?sched ?c ''wf'' =
              Some (Inl (Exception (UnresolvedDepsText
                     (concat (map (\<lambda>t. map (\<lambda>dep. (task_id t, dep))
                               (filter (\<lambda>dep. dep \<notin> set (completed_tasks ?s)) (dependencies t)))
                        (filter (\<lambda>t. task_id t \<notin> set (completed_tasks ?s))
                           (tasks (wf ?s))))))),
                    (coord ?s)\<lparr>workflows := (workflows (coord ?s))(''wf'' \<mapsto>
                       (wf ?s)\<lparr>wf_status := FAILED,
                              error_message := Some (UnresolvedDepsText
                     (concat (map (\<lambda>t. map (\<lambda>dep. (task_id t, dep))
                               (filter (\<lambda>dep. dep \<notin> set (completed_tasks ?s)) (dependencies t)))
                        (filter (\<lambda>t. task_id t \<notin> set (completed_tasks ?s))
                           (tasks (wf ?s))))))\<rparr>)\<rparr>)"
    by simp
  then have "(case execute_workflow 1 ?env ?sched ?c ''wf'' of
      Some (Inl e, c') \<Rightarrow>
        e = Exception (UnresolvedDepsText [(''x'', ''x'')]) \<and>
        map_option wf_status (workflows c' ''wf'') = Some FAILED \<and>
        map_option error_message (workflows c' ''wf'')
          = Some (Some (UnresolvedDepsText [(''x'', ''x'')])) \<and>
        invocations c' = []
    | Some (Inr w', c') \<Rightarrow> False
    | None \<Rightarrow> False)"
    by (simp add: init_state_def example_workflow_def example_task_def new_task_def
        with_workflow_def example_coordinator_def)
  with 1 5 show ?thesis by blast
qed

section \<open>The concurrency bound\<close>

lemma start_task_nth_id:
  "task_id (tasks (wf (start_task s x)) ! i) = task_id (tasks (wf s) ! i)"
proof (cases "x < length (tasks (wf s))")
  case True
  then show ?thesis by (simp add: start_task_def Let_def nth_list_update)
next
  case False
  then show ?thesis by (simp add: start_task_def Let_def list_update_beyond)
qed

lemma dict_set_new_length: "\<not> in_dict k r \<Longrightarrow> length (dict_set k v r) = Suc (length r)"
  by (simp add: dict_set_def)

lemma foldl_start_exact:
  "distinct (map (\<lambda>i. task_id (tasks (wf s) ! i)) xs) \<Longrightarrow>
   \<forall>i \<in> set xs. task_id (tasks (wf s) ! i) \<notin> set (map fst (running_tasks s)) \<Longrightarrow>
   length (running_tasks (foldl start_task s xs)) = length (running_tasks s) + length xs"
proof (induction xs arbitrary: s)
  case Nil
  then show ?case by simp
next
  case (Cons x xs)
  let ?s1 = "start_task s x"
  have new: "\<not> in_dict (task_id (tasks (wf s) ! x)) (running_tasks s)"
    using Cons.prems(2) by (simp add: in_dict_def)
  then have len: "length (running_tasks ?s1) = Suc (length (running_tasks s))"
    by (simp add: start_task_def Let_def dict_set_new_length)
  have ids: "map (\<lambda>i. task_id (tasks (wf ?s1) ! i)) xs = map (\<lambda>i. task_id (tasks (wf s) ! i)) xs"
    by (simp add: start_task_nth_id)
  have d: "distinct (map (\<lambda>i. task_id (tasks (wf ?s1) ! i)) xs)"
    using Cons.prems(1) unfolding ids by simp
  have k: "\<forall>i \<in> set xs. task_id (tasks (wf ?s1) ! i) \<notin> set (map fst (running_tasks ?s1))"
  proof
    fix i assume i: "i \<in> set xs"
    have "task_id (tasks (wf s) ! x) \<notin> (\<lambda>i. task_id (tasks (wf s) ! i)) ` set xs"
      using Cons.prems(1) by simp
    moreover have "task_id (tasks (wf s) ! i) \<in> (\<lambda>i. task_id (tasks (wf s) ! i)) ` set xs"
      using i by (intro image_eqI [where x = i]) simp_all
    ultimately have "task_id (tasks (wf s) ! i) \<noteq> task_id (tasks (wf s) ! x)"
      by metis
    moreover have "task_id (tasks (wf s) ! i) \<notin> set (map fst (running_tasks s))"
      using Cons.prems(2) i by simp
    ultimately show "task_id (tasks (wf ?s1) ! i) \<notin> set (map fst (running_tasks ?s1))"
      unfolding start_task_running start_task_nth_id by simp
  qed
  from Cons.IH [OF d k] len show ?case by simp
qed

lemma ready_distinct: "distinct (get_ready_tasks w cs r)"
  by (simp add: get_ready_tasks_def)

lemma ready_not_running:
  "i \<in> set (get_ready_tasks w cs r) \<Longrightarrow> task_id (tasks w ! i) \<notin> set (map fst r)"
  by (simp add: get_ready_tasks_def skipped_def in_dict_def)

lemma slice_to_distinct: "distinct xs \<Longrightarrow> distinct (slice_to k xs)"
  by (simp add: slice_to_def)

lemma ids_of_indices_distinct:
  assumes "distinct (map task_id ts)" and "distinct xs" and "\<forall>i \<in> set xs. i < length ts"
  shows "distinct (map (\<lambda>i. task_id (ts ! i)) xs)"
proof -
  have "inj_on (\<lambda>i. task_id (ts ! i)) (set xs)"
  proof (rule inj_onI)
    fix i j assume i: "i \<in> set xs" and j: "j \<in> set xs"
      and e: "task_id (ts ! i) = task_id (ts ! j)"
    from i j assms(3) have li: "i < length ts" and lj: "j < length ts"
      by simp_all
    from nth_eq_iff_index_eq [OF assms(1), of i j] e li lj show "i = j" by simp
  qed
  with assms(2) show ?thesis by (simp add: distinct_map)
qed

lemma dispatch_exact:
  assumes "distinct (map task_id (tasks (wf s)))"
  shows "length (running_tasks (dispatch s))
           = length (running_tasks s) + length (tasks_to_start s)"
proof -
  have sub: "set (tasks_to_start s)
               \<subseteq> set (get_ready_tasks (wf s) (completed_tasks s) (running_tasks s))"
    by (simp add: tasks_to_start_def Let_def slice_to_subset)
  have d: "distinct (tasks_to_start s)"
    by (simp add: tasks_to_start_def Let_def slice_to_distinct ready_distinct)
  have r: "\<forall>i \<in> set (tasks_to_start s). i < length (tasks (wf s))"
    by (auto dest: tasks_to_start_in_range)
  have 1: "distinct (map (\<lambda>i. task_id (tasks (wf s) ! i)) (tasks_to_start s))"
    using assms d r by (rule ids_of_indices_distinct)
  have 2: "\<forall>i \<in> set (tasks_to_start s).
             task_id (tasks (wf s) ! i) \<notin> set (map fst (running_tasks s))"
    using sub ready_not_running by blast
  show ?thesis unfolding dispatch_def using 1 2 by (rule foldl_start_exact)
qed

lemma tasks_to_start_count:
  assumes "int (length (running_tasks s)) \<le> max_concurrent_tasks (coord s)"
  shows "length (tasks_to_start s)
           = min (length (get_ready_tasks (wf s) (completed_tasks s) (running_tasks s)))
               (nat (max_concurrent_tasks (coord s) - int (length (running_tasks s))))"
  using assms by (simp add: tasks_to_start_def Let_def slice_to_def)

lemma init_state_bound:
  "0 \<le> max_concurrent_tasks c \<Longrightarrow>
     int (length (running_tasks (init_state c w))) \<le> max_concurrent_tasks (coord (init_state c w))"
  by (simp add: init_state_def)

text \<open>
  C5: with a maximum concurrency that is not negative, in every state that a run reaches
  at the head of the scheduler loop the number of entries of running_tasks is at most
  max_concurrent_tasks; the iteration starts the first max_concurrent_tasks - |running|
  ready tasks (all of them when fewer are ready), so at most that many; the bound holds
  after the tasks are started, where |running| is largest, and after the wait. When the
  task ids of the workflow are distinct, every task started has an entry of its own in
  running_tasks, so that |running| counts all executions in flight.
\<close>

theorem concurrency_bound:
  assumes "0 \<le> max_concurrent_tasks c"
    and "state_at k env sched (init_state c w) = Some s"
  shows "int (length (running_tasks s)) \<le> max_concurrent_tasks c \<and>
         length (tasks_to_start s)
           = min (length (get_ready_tasks (wf s) (completed_tasks s) (running_tasks s)))
               (nat (max_concurrent_tasks c - int (length (running_tasks s)))) \<and>
         int (length (tasks_to_start s))
           \<le> max_concurrent_tasks c - int (length (running_tasks s)) \<and>
         int (length (running_tasks (dispatch s))) \<le> max_concurrent_tasks c \<and>
         int (length (running_tasks (snd (loop_body env sched s)))) \<le> max_concurrent_tasks c \<and>
         (distinct (map task_id (tasks w)) \<longrightarrow>
            length (running_tasks (dispatch s))
              = length (running_tasks s) + length (tasks_to_start s))"
proof -
  from state_at_bound [OF assms(2) init_state_bound [OF assms(1)]]
  have b: "int (length (running_tasks s)) \<le> max_concurrent_tasks (coord s)"
    and m: "max_concurrent_tasks (coord s) = max_concurrent_tasks c"
    by (simp_all add: init_state_def)
  have ids: "map task_id (tasks (wf s)) = map task_id (tasks w)"
    using state_at_inv [OF assms(2) init_state_inv] by (simp add: init_state_def)
  obtain ctl s' where l: "loop_body env sched s = (ctl, s')"
    by (cases "loop_body env sched s") auto
  have 1: "int (length (running_tasks s)) \<le> max_concurrent_tasks c" using b m by simp
  have 2: "length (tasks_to_start s)
           = min (length (get_ready_tasks (wf s) (completed_tasks s) (running_tasks s)))
               (nat (max_concurrent_tasks c - int (length (running_tasks s))))"
    using tasks_to_start_count [OF b] m by simp
  have 3: "int (length (tasks_to_start s))
           \<le> max_concurrent_tasks c - int (length (running_tasks s))"
    using tasks_to_start_length [OF b] m by simp
  have 4: "int (length (running_tasks (dispatch s))) \<le> max_concurrent_tasks c"
    using dispatch_length [OF b] m by simp
  have 5: "int (length (running_tasks (snd (loop_body env sched s)))) \<le> max_concurrent_tasks c"
    using loop_body_bound [OF l b] loop_body_keeps(1) [OF l] m l by simp
  have 6: "distinct (map task_id (tasks w)) \<longrightarrow>
            length (running_tasks (dispatch s))
              = length (running_tasks s) + length (tasks_to_start s)"
    using dispatch_exact [of s] ids by simp
  from 1 2 3 4 5 6 show ?thesis by blast
qed

theorem concurrency_bound_witness:
  "0 \<le> max_concurrent_tasks (example_coordinator\<lparr>max_concurrent_tasks := 2\<rparr>) \<and>
   state_at 0 (\<lambda>tid j. Returns (success_result tid)) (\<lambda>n i. True)
     (init_state (example_coordinator\<lparr>max_concurrent_tasks := 2\<rparr>)
        (example_workflow [example_task ''a'' [] 1, example_task ''b'' [] 1,
                           example_task ''c'' [] 1]))
     = Some (init_state (example_coordinator\<lparr>max_concurrent_tasks := 2\<rparr>)
        (example_workflow [example_task ''a'' [] 1, example_task ''b'' [] 1,
                           example_task ''c'' [] 1])) \<and>
   distinct (map task_id (tasks (example_workflow [example_task ''a'' [] 1,
                           example_task ''b'' [] 1, example_task ''c'' [] 1]))) \<and>
   length (tasks_to_start (init_state (example_coordinator\<lparr>max_concurrent_tasks := 2\<rparr>)
        (example_workflow [example_task ''a'' [] 1, example_task ''b'' [] 1,
                           example_task ''c'' [] 1]))) = 2 \<and>
   length (running_tasks (dispatch (init_state
        (example_coordinator\<lparr>max_concurrent_tasks := 2\<rparr>)
        (example_workflow [example_task ''a'' [] 1, example_task ''b'' [] 1,
                           example_task ''c'' [] 1])))) = 2"
proof -
  let ?c = "example_coordinator\<lparr>max_concurrent_tasks := 2\<rparr>"
  let ?w = "example_workflow [example_task ''a'' [] 1, example_task ''b'' [] 1,
                              example_task ''c'' [] 1]"
  let ?env = "\<lambda>tid (j::nat). Returns (success_result tid)"
  let ?sched = "\<lambda>(n::nat) (i::nat). True"
  let ?s = "init_state ?c ?w"
  have 1: "0 \<le> max_concurrent_tasks ?c" by simp
  have 2: "state_at 0 ?env ?sched ?s = Some ?s" by simp
  have 3: "distinct (map task_id (tasks ?w))"
    by (simp add: example_workflow_def example_task_def new_task_def)
  have r: "length (get_ready_tasks (wf ?s) (completed_tasks ?s) (running_tasks ?s)) = 3"
    by (simp add: get_ready_tasks_def init_state_def example_workflow_def skipped_def
        dependencies_met_def in_dict_def example_task_def new_task_def)
  have e: "running_tasks ?s = []" by (simp add: init_state_def)
  from concurrency_bound [OF 1 2] 3 r e
  have "length (tasks_to_start ?s) = 2 \<and> length (running_tasks (dispatch ?s)) = 2"
    by simp
  with 1 2 3 show ?thesis by blast
qed

section \<open>Progress\<close>

text \<open>
  C6, as the spec states it, fails for a workflow that is executed again, since
  execute_workflow does not reset the progress. First: a workflow with one task is
  executed and completes with progress 100; executed a second time, nothing is ready (the
  task has status "completed"), the dead-end check raises, and the workflow is failed
  with progress still 100. Second: task "a" fails for good and "b" succeeds, the first
  execution ends with progress 100; in the second execution "a" (status "failed") is
  run again, its completion sets the progress to 50, below the 100 the execution began
  with, and the workflow ends failed.
\<close>

theorem progress_reexecution_counterexample:
  "(case execute_workflow 5 (\<lambda>tid j. Returns (success_result tid)) (\<lambda>n i. True)
           (with_workflow [example_task ''a'' [] 1]) ''wf'' of
      Some (Inr w1, c1) \<Rightarrow>
        wf_status w1 = COMPLETED \<and> progress w1 = 100 \<and>
        map_option progress (workflows c1 ''wf'') = Some 100 \<and>
        (case execute_workflow 5 (\<lambda>tid j. Returns (success_result tid)) (\<lambda>n i. True)
                c1 ''wf'' of
           Some (Inl e, c2) \<Rightarrow>
             map_option wf_status (workflows c2 ''wf'') = Some FAILED \<and>
             map_option progress (workflows c2 ''wf'') = Some 100
         | Some (Inr w2, c2) \<Rightarrow> False
         | None \<Rightarrow> False)
    | Some (Inl e, c1) \<Rightarrow> False
    | None \<Rightarrow> False) \<and>
   (case execute_workflow 5
           (\<lambda>tid j. if tid = ''a'' then Raises (Exception (WorkerText ''boom''))
                      else Returns (success_result tid))
           (\<lambda>n i. True)
           (with_workflow [(example_task ''a'' [] 1)\<lparr>max_retries := 0\<rparr>,
                           example_task ''b'' [] 1]) ''wf'' of
      Some (Inr w1, c1) \<Rightarrow>
        map_option progress (workflows c1 ''wf'') = Some 100 \<and>
        (case execute_workflow 5
                (\<lambda>tid j. if tid = ''a'' then Raises (Exception (WorkerText ''boom''))
                           else Returns (success_result tid))
                (\<lambda>n i. True) c1 ''wf'' of
           Some (Inl e, c2) \<Rightarrow>
             map_option wf_status (workflows c2 ''wf'') = Some FAILED \<and>
             map_option progress (workflows c2 ''wf'') = Some 50
         | Some (Inr w2, c2) \<Rightarrow> False
         | None \<Rightarrow> False)
    | Some (Inl e, c1) \<Rightarrow> False
    | None \<Rightarrow> False)"
  by code_simp

lemma full_progress_ends:
  assumes "progress_bounded s" and "progress (wf s) = 100"
  shows "execute_workflow_tasks (Suc n) env sched s = Some (None, s)"
proof -
  let ?a = "length (completed_tasks s)" and ?b = "length (tasks (wf s))"
  from assms have le: "(100::rat) \<le> of_nat ?a / of_nat ?b * 100"
    by (simp add: progress_bounded_def)
  have "\<not> ?a < ?b"
  proof
    assume lt: "?a < ?b"
    then have "(of_nat ?a :: rat) / of_nat ?b < 1" by (simp add: divide_less_eq_1)
    then have "(of_nat ?a :: rat) / of_nat ?b * 100 < 100" by (rule times_100)
    with le show False by simp
  qed
  then show ?thesis by simp
qed

text \<open>
  C6, amended: for an execution that starts with progress 0 (as a workflow made by
  create_workflow has), the progress never decreases: from the start to every state
  reached at the head of the scheduler loop, from each such state through the loop body
  and to every later one, and up to the progress the workflow has when execute_workflow
  ends. Once the progress is 100 at the head of the loop, the loop ends normally there.
  When execute_workflow ends, the workflow is completed or failed, and its progress is
  100 if and only if it is completed.
\<close>

theorem progress_monotone_and_complete:
  assumes "workflows c wid = Some w" and "progress w \<le> 0"
  shows "(\<forall>k s. state_at k env sched (init_state c w) = Some s \<longrightarrow>
            progress w \<le> progress (wf s) \<and>
            progress (wf s) \<le> progress (wf (snd (loop_body env sched s))) \<and>
            (\<forall>j s'. state_at j env sched s = Some s' \<longrightarrow> progress (wf s) \<le> progress (wf s')) \<and>
            (progress (wf s) = 100 \<longrightarrow>
               (\<forall>n. execute_workflow_tasks (Suc n) env sched s = Some (None, s)))) \<and>
         (\<forall>r c'. execute_workflow fuel env sched c wid = Some (r, c') \<longrightarrow>
            (\<exists>w'. workflows c' wid = Some w' \<and>
                  (wf_status w' = COMPLETED \<or> wf_status w' = FAILED) \<and>
                  (progress w' = 100 \<longleftrightarrow> wf_status w' = COMPLETED) \<and>
                  (\<forall>k s. state_at k env sched (init_state c w) = Some s \<longrightarrow>
                     progress (wf s) \<le> progress w')))"
proof -
  let ?s0 = "init_state c w"
  have i0: "sched_inv ?s0" by (rule init_state_inv)
  have p0: "progress_bounded ?s0" using assms(2) by (rule init_state_progress)
  have w0: "progress (wf ?s0) = progress w" by (simp add: init_state_def)
  have visited: "progress w \<le> progress (wf s) \<and>
            progress (wf s) \<le> progress (wf (snd (loop_body env sched s))) \<and>
            (\<forall>j s'. state_at j env sched s = Some s' \<longrightarrow> progress (wf s) \<le> progress (wf s')) \<and>
            (progress (wf s) = 100 \<longrightarrow>
               (\<forall>n. execute_workflow_tasks (Suc n) env sched s = Some (None, s)))"
    if st: "state_at k env sched ?s0 = Some s" for k s
  proof -
    from state_at_progress [OF st p0] w0
    have ps: "progress_bounded s" and a: "progress w \<le> progress (wf s)" by simp_all
    obtain ctl s1 where l: "loop_body env sched s = (ctl, s1)"
      by (cases "loop_body env sched s") auto
    from loop_body_progress [OF l ps] l
    have b: "progress (wf s) \<le> progress (wf (snd (loop_body env sched s)))" by simp
    have c: "\<forall>j s'. state_at j env sched s = Some s' \<longrightarrow> progress (wf s) \<le> progress (wf s')"
      using state_at_progress [OF _ ps] by blast
    have d: "progress (wf s) = 100 \<longrightarrow>
               (\<forall>n. execute_workflow_tasks (Suc n) env sched s = Some (None, s))"
      using full_progress_ends [OF ps] by blast
    from a b c d show ?thesis by blast
  qed
  have final: "\<exists>w'. workflows c' wid = Some w' \<and>
                  (wf_status w' = COMPLETED \<or> wf_status w' = FAILED) \<and>
                  (progress w' = 100 \<longleftrightarrow> wf_status w' = COMPLETED) \<and>
                  (\<forall>k s. state_at k env sched ?s0 = Some s \<longrightarrow> progress (wf s) \<le> progress w')"
    if ex: "execute_workflow fuel env sched c wid = Some (r, c')" for r c'
  proof -
    from ex assms(1) obtain e sf where
      run: "execute_workflow_tasks fuel env sched ?s0 = Some (e, sf)"
      by (auto simp: execute_workflow_def split: option.splits)
    from run_final [OF run i0 p0]
    have isf: "sched_inv sf" and psf: "progress_bounded sf"
      and lt: "e \<noteq> None \<longrightarrow> progress (wf sf) < 100"
      by simp_all
    have le100: "progress (wf sf) \<le> 100" using psf isf by (rule bounded_at_most_100)
    have before: "progress (wf s) \<le> progress (wf sf)"
      if st: "state_at k env sched ?s0 = Some s" for k s
    proof -
      from run_from_visited [OF st run] obtain n where
        n: "execute_workflow_tasks n env sched s = Some (e, sf)" by blast
      have "sched_inv s" using state_at_inv [OF st i0] by simp
      moreover have "progress_bounded s" using state_at_progress [OF st p0] by simp
      ultimately show ?thesis using run_final [OF n] by simp
    qed
    show ?thesis
    proof (cases e)
      case None
      let ?w' = "(wf sf)\<lparr>wf_status := COMPLETED, progress := 100\<rparr>"
      from ex assms(1) run None have "c' = store sf wid ?w'"
        by (simp add: execute_workflow_def Let_def)
      then have "workflows c' wid = Some ?w'" by (simp add: store_def)
      moreover have "\<forall>k s. state_at k env sched ?s0 = Some s \<longrightarrow> progress (wf s) \<le> progress ?w'"
        using before le100 by fastforce
      ultimately show ?thesis by simp
    next
      case (Some x)
      let ?w' = "(wf sf)\<lparr>wf_status := FAILED, error_message := Some (str_exn x)\<rparr>"
      from ex assms(1) run Some have "c' = store sf wid ?w'"
        by (simp add: execute_workflow_def Let_def)
      then have "workflows c' wid = Some ?w'" by (simp add: store_def)
      moreover have "progress ?w' \<noteq> 100" using lt Some by simp
      moreover have "\<forall>k s. state_at k env sched ?s0 = Some s \<longrightarrow> progress (wf s) \<le> progress ?w'"
        using before by simp
      ultimately show ?thesis by simp
    qed
  qed
  from visited final show ?thesis by blast
qed

theorem progress_monotone_and_complete_witness:
  "workflows (with_workflow [example_task ''a'' [] 1, example_task ''b'' [''a''] 1]) ''wf''
     = Some (example_workflow [example_task ''a'' [] 1, example_task ''b'' [''a''] 1]) \<and>
   progress (example_workflow [example_task ''a'' [] 1, example_task ''b'' [''a''] 1]) \<le> 0 \<and>
   (\<exists>r c' w'.
      execute_workflow 5 (\<lambda>tid j. Returns (success_result tid)) (\<lambda>n i. True)
        (with_workflow [example_task ''a'' [] 1, example_task ''b'' [''a''] 1]) ''wf''
        = Some (r, c') \<and>
      workflows c' ''wf'' = Some w' \<and> wf_status w' = COMPLETED \<and> progress w' = 100 \<and>
      progress (example_workflow [example_task ''a'' [] 1, example_task ''b'' [''a''] 1])
        \<le> progress w')"
proof -
  let ?c = "with_workflow [example_task ''a'' [] 1, example_task ''b'' [''a''] 1]"
  let ?w = "example_workflow [example_task ''a'' [] 1, example_task ''b'' [''a''] 1]"
  let ?env = "\<lambda>tid (j::nat). Returns (success_result tid)"
  let ?sched = "\<lambda>(n::nat) (i::nat). True"
  have 1: "workflows ?c ''wf'' = Some ?w" by (simp add: with_workflow_def)
  have 2: "progress ?w \<le> 0" by (simp add: example_workflow_def)
  have "(case execute_workflow 5 ?env ?sched ?c ''wf'' of
           Some (r, c') \<Rightarrow> map_option wf_status (workflows c' ''wf'') = Some COMPLETED
         | None \<Rightarrow> False)"
    by code_simp
  then obtain r c' where ex: "execute_workflow 5 ?env ?sched ?c ''wf'' = Some (r, c')"
    and st: "map_option wf_status (workflows c' ''wf'') = Some COMPLETED"
    by (auto split: option.splits)
  from progress_monotone_and_complete [OF 1 2, of ?env ?sched 5] ex
  obtain w' where w': "workflows c' ''wf'' = Some w'"
    and iff: "progress w' = 100 \<longleftrightarrow> wf_status w' = COMPLETED"
    and le: "\<forall>k s. state_at k ?env ?sched (init_state ?c ?w) = Some s
                 \<longrightarrow> progress (wf s) \<le> progress w'"
    by blast
  from st w' have comp: "wf_status w' = COMPLETED" by simp
  with iff have full: "progress w' = 100" by simp
  have "state_at 0 ?env ?sched (init_state ?c ?w) = Some (init_state ?c ?w)" by simp
  with le have "progress (wf (init_state ?c ?w)) \<le> progress w'" by blast
  then have "progress ?w \<le> progress w'" by (simp add: init_state_def)
  with 1 2 ex w' comp full show ?thesis by blast
qed

end
